theory Spec2Isabelle
  imports Main "HOL-Library.Char_ord" "HOL-Library.Sublist"
begin

section \<open>JavaScript values\<close>

text \<open>
  The server code works on values that come out of \<^verbatim>\<open>JSON.parse\<close> and on strings.
  A string is a list of code units; the development uses the code units below 256.
  A parsed JSON value is a \<open>json\<close>; an object is the list of its own properties in the
  order \<^verbatim>\<open>Object.entries\<close> enumerates them. Numbers are the integer-valued ones.
  The value \<^verbatim>\<open>undefined\<close> is \<open>None\<close> of \<open>json option\<close>.
\<close>

datatype json =
    JNull
  | JBool bool
  | JNum int
  | JStr string
  | JArr "json list"
  | JObj "(string \<times> json) list"

type_synonym jsval = "json option"

datatype error = TypeError | Error string

text \<open>ToBoolean: \<^verbatim>\<open>undefined\<close>, \<^verbatim>\<open>null\<close>, \<^verbatim>\<open>false\<close>, \<^verbatim>\<open>0\<close> and \<^verbatim>\<open>''\<close> are falsy.\<close>

fun truthy :: "jsval \<Rightarrow> bool" where
  "truthy None = False"
| "truthy (Some JNull) = False"
| "truthy (Some (JBool b)) = b"
| "truthy (Some (JNum n)) = (n \<noteq> 0)"
| "truthy (Some (JStr s)) = (s \<noteq> [])"
| "truthy (Some (JArr xs)) = True"
| "truthy (Some (JObj kvs)) = True"

text \<open>\<^verbatim>\<open>a || b\<close>\<close>

definition js_or :: "jsval \<Rightarrow> jsval \<Rightarrow> jsval" where
  "js_or a b = (if truthy a then a else b)"

text \<open>\<^verbatim>\<open>a || d\<close> with a default \<open>d\<close> that is a value of the parsed kind.\<close>

definition js_or_else :: "jsval \<Rightarrow> json \<Rightarrow> json" where
  "js_or_else a d = (case a of None \<Rightarrow> d | Some v \<Rightarrow> if truthy (Some v) then v else d)"

text \<open>
  \<^verbatim>\<open>x.k\<close> for a property name \<open>k\<close> that no prototype defines: a TypeError on
  \<^verbatim>\<open>undefined\<close> and \<^verbatim>\<open>null\<close>, the own property of an object, \<^verbatim>\<open>undefined\<close> otherwise.
\<close>

fun get_prop :: "jsval \<Rightarrow> string \<Rightarrow> error + jsval" where
  "get_prop None k = Inl TypeError"
| "get_prop (Some JNull) k = Inl TypeError"
| "get_prop (Some (JObj kvs)) k = Inr (map_of kvs k)"
| "get_prop (Some v) k = Inr None"

text \<open>Sequencing of steps that may throw.\<close>

definition then_do :: "error + 'a \<Rightarrow> ('a \<Rightarrow> error + 'b) \<Rightarrow> error + 'b" where
  "then_do x f = (case x of Inl e \<Rightarrow> Inl e | Inr v \<Rightarrow> f v)"

text \<open>\<^verbatim>\<open>x?.k\<close>\<close>

fun opt_prop :: "jsval \<Rightarrow> string \<Rightarrow> jsval" where
  "opt_prop None k = None"
| "opt_prop (Some JNull) k = None"
| "opt_prop (Some (JObj kvs)) k = map_of kvs k"
| "opt_prop (Some v) k = None"

text \<open>\<^verbatim>\<open>x[i]\<close> of a value that is neither \<^verbatim>\<open>null\<close> nor \<^verbatim>\<open>undefined\<close>, and \<^verbatim>\<open>x?.[0]\<close>.\<close>

fun nth_opt :: "'a list \<Rightarrow> nat \<Rightarrow> 'a option" where
  "nth_opt [] i = None"
| "nth_opt (x # xs) 0 = Some x"
| "nth_opt (x # xs) (Suc i) = nth_opt xs i"

subsection \<open>Characters and strings\<close>

definition is_line_terminator :: "char \<Rightarrow> bool" where
  "is_line_terminator c = (c = CHR 0x0A \<or> c = CHR 0x0D)"

text \<open>White space and line terminators: what \<^verbatim>\<open>\s\<close> matches and \<^verbatim>\<open>trim\<close> strips.\<close>

definition is_space :: "char \<Rightarrow> bool" where
  "is_space c = (c \<in> set [CHR 0x09, CHR 0x0A, CHR 0x0B, CHR 0x0C, CHR 0x0D, CHR 0x20, CHR 0xA0])"

definition is_digit :: "char \<Rightarrow> bool" where
  "is_digit c = (CHR ''0'' \<le> c \<and> c \<le> CHR ''9'')"

definition is_lower :: "char \<Rightarrow> bool" where
  "is_lower c = (CHR ''a'' \<le> c \<and> c \<le> CHR ''z'')"

definition is_upper :: "char \<Rightarrow> bool" where
  "is_upper c = (CHR ''A'' \<le> c \<and> c \<le> CHR ''Z'')"

text \<open>\<^verbatim>\<open>\w\<close>\<close>

definition is_word :: "char \<Rightarrow> bool" where
  "is_word c = (is_lower c \<or> is_upper c \<or> is_digit c \<or> c = CHR ''_'')"

text \<open>\<^verbatim>\<open>String.prototype.toLowerCase\<close> on code units below 256.\<close>

definition lower_char :: "char \<Rightarrow> char" where
  "lower_char c =
     (let n = (of_char c :: nat) in
      if (65 \<le> n \<and> n \<le> 90) \<or> (192 \<le> n \<and> n \<le> 222 \<and> n \<noteq> 215)
      then char_of (n + 32) else c)"

definition toLowerCase :: "string \<Rightarrow> string" where
  "toLowerCase s = map lower_char s"

definition trim :: "string \<Rightarrow> string" where
  "trim s = rev (dropWhile is_space (rev (dropWhile is_space s)))"

definition startsWith :: "string \<Rightarrow> string \<Rightarrow> bool" where
  "startsWith s p = prefix p s"

text \<open>\<^verbatim>\<open>s.includes(sub)\<close>\<close>

fun str_includes :: "string \<Rightarrow> string \<Rightarrow> bool" where
  "str_includes [] sub = (sub = [])"
| "str_includes (c # cs) sub = (prefix sub (c # cs) \<or> str_includes cs sub)"

text \<open>
  \<^verbatim>\<open>s.replace(pat, repl)\<close> with a string pattern: the first occurrence only. The
  replacement texts of this code contain no \<^verbatim>\<open>$\<close>.
\<close>

fun str_replace :: "string \<Rightarrow> string \<Rightarrow> string \<Rightarrow> string" where
  "str_replace [] pat repl = (if pat = [] then repl else [])"
| "str_replace (c # cs) pat repl =
     (if prefix pat (c # cs) then repl @ drop (length pat) (c # cs)
      else c # str_replace cs pat repl)"

text \<open>
  \<^verbatim>\<open>s.split(sep)\<close> with a non-empty separator; \<open>cur\<close> is the piece being read,
  reversed. (An empty separator splits into code units.)
\<close>

fun split_from :: "string \<Rightarrow> string \<Rightarrow> string \<Rightarrow> string list" where
  "split_from cur sep [] = [rev cur]"
| "split_from cur sep (c # cs) =
     (if sep \<noteq> [] \<and> prefix sep (c # cs)
      then rev cur # split_from [] sep (drop (length sep) (c # cs))
      else split_from (c # cur) sep cs)"

definition split :: "string \<Rightarrow> string \<Rightarrow> string list" where
  "split s sep = (if sep = [] then map (\<lambda>c. [c]) s else split_from [] sep s)"

text \<open>\<^verbatim>\<open>xs.join(sep)\<close>\<close>

fun join :: "string list \<Rightarrow> string \<Rightarrow> string" where
  "join [] sep = []"
| "join [x] sep = x"
| "join (x # y # ys) sep = x @ sep @ join (y # ys) sep"

text \<open>The decimal numeral of a natural number, as \<^verbatim>\<open>String(n)\<close> writes an array index.\<close>

fun show_nat :: "nat \<Rightarrow> string" where
  "show_nat n =
     (if n < 10 then [char_of (48 + n)]
      else show_nat (n div 10) @ [char_of (48 + n mod 10)])"

text \<open>
  \<^verbatim>\<open>Object.entries(x)\<close>: the own enumerable string-keyed properties. A string and an
  array enumerate their indices; a number or a boolean has none; \<^verbatim>\<open>null\<close> and
  \<^verbatim>\<open>undefined\<close> throw.
\<close>

fun object_entries :: "jsval \<Rightarrow> error + (string \<times> json) list" where
  "object_entries None = Inl TypeError"
| "object_entries (Some JNull) = Inl TypeError"
| "object_entries (Some (JObj kvs)) = Inr kvs"
| "object_entries (Some (JArr xs)) = Inr (zip (map show_nat [0..<length xs]) xs)"
| "object_entries (Some (JStr s)) = Inr (zip (map show_nat [0..<length s]) (map (\<lambda>c. JStr [c]) s))"
| "object_entries (Some (JNum n)) = Inr []"
| "object_entries (Some (JBool b)) = Inr []"

fun js_index :: "json \<Rightarrow> nat \<Rightarrow> jsval" where
  "js_index (JArr xs) i = nth_opt xs i"
| "js_index (JStr s) i = map_option (\<lambda>c. JStr [c]) (nth_opt s i)"
| "js_index (JObj kvs) i = map_of kvs (show_nat i)"
| "js_index v i = None"

fun opt_index0 :: "jsval \<Rightarrow> jsval" where
  "opt_index0 None = None"
| "opt_index0 (Some JNull) = None"
| "opt_index0 (Some v) = js_index v 0"

text \<open>\<^verbatim>\<open>x.length\<close> of a value that is neither \<^verbatim>\<open>null\<close> nor \<^verbatim>\<open>undefined\<close>.\<close>

fun js_length :: "json \<Rightarrow> jsval" where
  "js_length (JArr xs) = Some (JNum (int (length xs)))"
| "js_length (JStr s) = Some (JNum (int (length s)))"
| "js_length (JObj kvs) = map_of kvs ''length''"
| "js_length v = None"

text \<open>
  The values a \<^verbatim>\<open>for ... of\<close> loop runs over: the elements of an array, the code units
  of a string; any other value is not iterable.
\<close>

fun iterate :: "json \<Rightarrow> error + json list" where
  "iterate (JArr xs) = Inr xs"
| "iterate (JStr s) = Inr (map (\<lambda>c. JStr [c]) s)"
| "iterate v = Inl TypeError"

text \<open>\<^verbatim>\<open>encodeURIComponent\<close> on code units below 256.\<close>

definition hex_digit :: "nat \<Rightarrow> char" where
  "hex_digit n = (if n < 10 then char_of (48 + n) else char_of (55 + n))"

definition percent :: "nat \<Rightarrow> string" where
  "percent n = [CHR ''%'', hex_digit (n div 16), hex_digit (n mod 16)]"

definition encode_unit :: "char \<Rightarrow> string" where
  "encode_unit c =
     (let n = (of_char c :: nat) in
      if is_lower c \<or> is_upper c \<or> is_digit c \<or> c \<in> set (''-_.!~*()'' @ [CHR 0x27]) then [c]
      else if n < 128 then percent n
      else percent (192 + n div 64) @ percent (128 + n mod 64))"

definition encodeURIComponent :: "string \<Rightarrow> string" where
  "encodeURIComponent s = concat (map encode_unit s)"

subsection \<open>Regular expressions\<close>

text \<open>
  The regular expressions of the code are written as terms of \<open>regex\<close> and run by a
  backtracking matcher that lists the states a match can end in, in the order the
  backtracking of ECMAScript tries them: the head of the list is the match found.
  A state holds the input consumed so far (reversed), the input left and the captures.
  An iteration of a star that consumes nothing is rejected, as ECMAScript does. The flag
  \<open>m\<close> is the multiline flag; a case-insensitive class is written with both cases.
\<close>

datatype regex =
    Sym "char \<Rightarrow> bool"
  | Eps
  | Seq regex regex
  | Alt regex regex
  | Star regex
  | LazyStar regex
  | Grp nat regex
  | Bol
  | Eol

record mstate =
  consumed :: string
  rest :: string
  caps :: "(nat \<times> string) list"

primrec iter_greedy :: "(mstate \<Rightarrow> mstate list) \<Rightarrow> nat \<Rightarrow> mstate \<Rightarrow> mstate list" where
  "iter_greedy f 0 s = [s]"
| "iter_greedy f (Suc n) s =
     concat (map (iter_greedy f n) (filter (\<lambda>t. length (rest t) < length (rest s)) (f s))) @ [s]"

primrec iter_lazy :: "(mstate \<Rightarrow> mstate list) \<Rightarrow> nat \<Rightarrow> mstate \<Rightarrow> mstate list" where
  "iter_lazy f 0 s = [s]"
| "iter_lazy f (Suc n) s =
     s # concat (map (iter_lazy f n) (filter (\<lambda>t. length (rest t) < length (rest s)) (f s)))"

primrec rmatch :: "bool \<Rightarrow> regex \<Rightarrow> mstate \<Rightarrow> mstate list" where
  "rmatch m (Sym P) = (\<lambda>s. case rest s of [] \<Rightarrow> []
       | c # cs \<Rightarrow> if P c then [s\<lparr>consumed := c # consumed s, rest := cs\<rparr>] else [])"
| "rmatch m Eps = (\<lambda>s. [s])"
| "rmatch m (Seq a b) = (\<lambda>s. concat (map (rmatch m b) (rmatch m a s)))"
| "rmatch m (Alt a b) = (\<lambda>s. rmatch m a s @ rmatch m b s)"
| "rmatch m (Star a) = (\<lambda>s. iter_greedy (rmatch m a) (length (rest s)) s)"
| "rmatch m (LazyStar a) = (\<lambda>s. iter_lazy (rmatch m a) (length (rest s)) s)"
| "rmatch m (Grp n a) = (\<lambda>s.
       map (\<lambda>t. t\<lparr>caps := (n, take (length (rest s) - length (rest t)) (rest s)) # caps t\<rparr>)
         (rmatch m a s))"
| "rmatch m Bol = (\<lambda>s.
       if (case consumed s of [] \<Rightarrow> True | c # cs \<Rightarrow> m \<and> is_line_terminator c) then [s] else [])"
| "rmatch m Eol = (\<lambda>s.
       if (case rest s of [] \<Rightarrow> True | c # cs \<Rightarrow> m \<and> is_line_terminator c) then [s] else [])"

definition Plus :: "regex \<Rightarrow> regex" where
  "Plus r = Seq r (Star r)"

definition LazyPlus :: "regex \<Rightarrow> regex" where
  "LazyPlus r = Seq r (LazyStar r)"

definition Opt :: "regex \<Rightarrow> regex" where
  "Opt r = Alt r Eps"

definition lit :: "string \<Rightarrow> regex" where
  "lit s = foldr (\<lambda>c r. Seq (Sym ((=) c)) r) s Eps"

definition seqs :: "regex list \<Rightarrow> regex" where
  "seqs rs = foldr Seq rs Eps"

definition one_of :: "string \<Rightarrow> char \<Rightarrow> bool" where
  "one_of cs c = (c \<in> set cs)"

definition none_of :: "string \<Rightarrow> char \<Rightarrow> bool" where
  "none_of cs c = (c \<notin> set cs)"

text \<open>The dot: any code unit but a line terminator.\<close>

definition any_char :: "char \<Rightarrow> bool" where
  "any_char c = (\<not> is_line_terminator c)"

text \<open>
  The first match at or after a position: the start state and the end state.
  \<open>pre\<close> is the input before the position, reversed.
\<close>

fun search :: "bool \<Rightarrow> regex \<Rightarrow> string \<Rightarrow> string \<Rightarrow> (mstate \<times> mstate) option" where
  "search m r pre [] =
     (case rmatch m r \<lparr>consumed = pre, rest = [], caps = []\<rparr> of
        [] \<Rightarrow> None
      | t # ts \<Rightarrow> Some (\<lparr>consumed = pre, rest = [], caps = []\<rparr>, t))"
| "search m r pre (c # cs) =
     (case rmatch m r \<lparr>consumed = pre, rest = c # cs, caps = []\<rparr> of
        [] \<Rightarrow> search m r (c # pre) cs
      | t # ts \<Rightarrow> Some (\<lparr>consumed = pre, rest = c # cs, caps = []\<rparr>, t))"

text \<open>\<^verbatim>\<open>r.test(s)\<close> and \<^verbatim>\<open>s.match(r)\<close> of a regular expression without the global flag;
  the match is given by its captures (\<open>None\<close> for a group that took no part).\<close>

definition re_test :: "bool \<Rightarrow> regex \<Rightarrow> string \<Rightarrow> bool" where
  "re_test m r s = (search m r [] s \<noteq> None)"

definition re_match :: "bool \<Rightarrow> regex \<Rightarrow> string \<Rightarrow> (nat \<Rightarrow> string option) option" where
  "re_match m r s = map_option (\<lambda>(s0, t). map_of (caps t)) (search m r [] s)"

text \<open>\<^verbatim>\<open>s.replace(r, repl)\<close> without the global flag and with no \<^verbatim>\<open>$\<close> in \<open>repl\<close>.\<close>

definition re_replace :: "bool \<Rightarrow> regex \<Rightarrow> string \<Rightarrow> string \<Rightarrow> string" where
  "re_replace m r s repl =
     (case search m r [] s of
        None \<Rightarrow> s
      | Some (s0, t) \<Rightarrow> rev (consumed s0) @ repl @ rest t)"

text \<open>
  The loop \<^verbatim>\<open>while ((match = regex.exec(content)) !== null)\<close> of a regular expression
  with the global flag: every search starts where the last match ended. \<open>k\<close> code units
  are still to be skipped to reach that place. A match that consumes nothing leaves
  \<^verbatim>\<open>lastIndex\<close> where it is and the loop never ends: the result is \<open>None\<close>.
\<close>

fun exec_loop :: "bool \<Rightarrow> regex \<Rightarrow> nat \<Rightarrow> string \<Rightarrow> string \<Rightarrow> (nat \<Rightarrow> string option) list option" where
  "exec_loop m r k pre [] =
     (if 0 < k then Some []
      else case rmatch m r \<lparr>consumed = pre, rest = [], caps = []\<rparr> of
             [] \<Rightarrow> Some []
           | t # ts \<Rightarrow> None)"
| "exec_loop m r (Suc k) pre (c # cs) = exec_loop m r k (c # pre) cs"
| "exec_loop m r 0 pre (c # cs) =
     (case rmatch m r \<lparr>consumed = pre, rest = c # cs, caps = []\<rparr> of
        [] \<Rightarrow> exec_loop m r 0 (c # pre) cs
      | t # ts \<Rightarrow>
          (let n = length (c # cs) - length (rest t) in
           if n = 0 then None
           else map_option ((#) (map_of (caps t))) (exec_loop m r (n - 1) (c # pre) cs)))"

text \<open>
  A regular expression that consumes input in every match: the loop over the matches of
  such an expression ends.
\<close>

fun consumes :: "regex \<Rightarrow> bool" where
  "consumes (Sym P) = True"
| "consumes (Seq a b) = (consumes a \<or> consumes b)"
| "consumes (Alt a b) = (consumes a \<and> consumes b)"
| "consumes (Grp n a) = consumes a"
| "consumes r = False"

text \<open>
  A regular expression in which group \<open>n\<close> takes part in every match: the code reads such a
  group of a match without testing it.
\<close>

fun captures :: "nat \<Rightarrow> regex \<Rightarrow> bool" where
  "captures n (Grp k a) = (k = n \<or> captures n a)"
| "captures n (Seq a b) = (captures n a \<or> captures n b)"
| "captures n (Alt a b) = (captures n a \<and> captures n b)"
| "captures n r = False"

section \<open>The host: what the code reaches outside itself\<close>

text \<open>
  \<^verbatim>\<open>JSON.parse\<close> (\<open>None\<close> when it throws) and the network. \<^verbatim>\<open>fetch\<close> throws
  (\<open>NetworkError\<close>) or gives a response with its \<^verbatim>\<open>ok\<close> flag and its body text
  (\<open>None\<close> when reading the body fails). The request headers of the code are constants
  and are left out; a POST carries the value that the code serialises as its body.
\<close>

datatype http_response = NetworkError | Response (ok: bool) (body: "string option")

record host =
  JSON_parse :: "string \<Rightarrow> json option"
  ToString :: "json \<Rightarrow> string"
  index_below :: "nat \<Rightarrow> json \<Rightarrow> bool"
  fetch :: "string \<Rightarrow> http_response"
  fetch_post :: "string \<Rightarrow> json \<Rightarrow> http_response"

text \<open>
  \<^verbatim>\<open>String(v)\<close>, and \<^verbatim>\<open>i < v\<close> for an index \<open>i\<close>. The conversion to a string is
  taken to return: it throws only for a value that holds an object whose own
  \<^verbatim>\<open>toString\<close> and \<^verbatim>\<open>valueOf\<close> are not functions.
\<close>

definition to_str :: "host \<Rightarrow> json \<Rightarrow> string" where
  "to_str h v = (case v of JStr s \<Rightarrow> s | _ \<Rightarrow> ToString h v)"

definition index_lt :: "host \<Rightarrow> nat \<Rightarrow> jsval \<Rightarrow> bool" where
  "index_lt h i v =
     (case v of None \<Rightarrow> False | Some (JNum n) \<Rightarrow> int i < n | Some w \<Rightarrow> index_below h i w)"

text \<open>\<^verbatim>\<open>await response.json()\<close>: the parsed body, or a rejection.\<close>

definition response_json :: "host \<Rightarrow> string option \<Rightarrow> error + json" where
  "response_json h b =
     (case b of
        None \<Rightarrow> Inl (Error ''body'')
      | Some t \<Rightarrow> (case JSON_parse h t of None \<Rightarrow> Inl (Error ''SyntaxError'') | Some v \<Rightarrow> Inr v))"

section \<open>Remote Input Classifier (services/remote.ts)\<close>

definition NPM_REGISTRY :: string where
  "NPM_REGISTRY = ''https://registry.npmjs.org''"

definition OSV_API :: string where
  "OSV_API = ''https://api.osv.dev/v1/querybatch''"

definition NPM_SITE_REGISTRY_MAP :: "(string \<times> string) list" where
  "NPM_SITE_REGISTRY_MAP =
     [(''npmjs.com'', ''https://registry.npmjs.org''),
      (''www.npmjs.com'', ''https://registry.npmjs.org''),
      (''npmmirror.com'', ''https://registry.npmmirror.com''),
      (''npm.taobao.org'', ''https://registry.npmmirror.com''),
      (''yarnpkg.com'', ''https://registry.yarnpkg.com'')]"

datatype InputType = npm_package | npm_site_url | git_url

record ParsedInput =
  input_type :: InputType
  input_value :: string
  registry :: "string option"

text \<open>
  The text \<^verbatim>\<open>domain.replace('.', '\\.')\<close> read as a piece of a pattern: a backslash
  makes the next code unit literal, a bare dot matches any code unit but a line
  terminator, a letter matches itself. (The domains of the table are letters and dots.)
\<close>

fun domain_pattern :: "string \<Rightarrow> regex" where
  "domain_pattern [] = Eps"
| "domain_pattern [c] = (if c = CHR ''.'' then Sym any_char else Sym ((=) c))"
| "domain_pattern (c # d # cs) =
     (if c = CHR 0x5C then Seq (Sym ((=) d)) (domain_pattern cs)
      else if c = CHR ''.'' then Seq (Sym any_char) (domain_pattern (d # cs))
      else Seq (Sym ((=) c)) (domain_pattern (d # cs)))"

text \<open>\<^verbatim>\<open>new RegExp(`^https?:\\/\\/${domain.replace('.', '\\.')}\\/package\\/(.+)$`)\<close>\<close>

definition urlPattern :: "string \<Rightarrow> regex" where
  "urlPattern domain =
     seqs [Bol, lit ''http'', Opt (lit ''s''), lit ''://'',
           domain_pattern (str_replace domain ''.'' [CHR 0x5C, CHR ''.'']),
           lit ''/package/'', Grp 1 (Plus (Sym any_char)), Eol]"

text \<open>
  A URL of a known site, as section 4.3 of the specification describes it: the scheme,
  a domain of the table, \<^verbatim>\<open>/package/\<close> and a name that is not empty.
\<close>

definition known_site_url :: "string \<Rightarrow> bool" where
  "known_site_url u =
     list_ex (\<lambda>(domain, reg).
        list_ex (\<lambda>scheme.
           startsWith u (scheme @ domain @ ''/package/'')
           \<and> length (scheme @ domain @ ''/package/'') < length u) [''http://'', ''https://''])
       NPM_SITE_REGISTRY_MAP"

text \<open>The loop over the entries of the table; group 1 takes part in every match.\<close>

fun match_site :: "(string \<times> string) list \<Rightarrow> string \<Rightarrow> ParsedInput option" where
  "match_site [] trimmed = None"
| "match_site ((domain, reg) # es) trimmed =
     (case re_match False (urlPattern domain) trimmed of
        Some g \<Rightarrow> Some \<lparr>input_type = npm_site_url,
                         input_value = (case g 1 of Some v \<Rightarrow> v | None \<Rightarrow> []),
                         registry = Some reg\<rparr>
      | None \<Rightarrow> match_site es trimmed)"

text \<open>\<^verbatim>\<open>x\<close> with the flag \<^verbatim>\<open>i\<close>, for a class of ASCII code units.\<close>

definition ascii_lower :: "char \<Rightarrow> char" where
  "ascii_lower c = (if is_upper c then char_of (of_char c + (32 :: nat)) else c)"

definition ascii_upper :: "char \<Rightarrow> char" where
  "ascii_upper c = (if is_lower c then char_of (of_char c - (32 :: nat)) else c)"

definition ci :: "(char \<Rightarrow> bool) \<Rightarrow> char \<Rightarrow> bool" where
  "ci P c = (P c \<or> P (ascii_lower c) \<or> P (ascii_upper c))"

text \<open>\<^verbatim>\<open>[a-z0-9-~]\<close> and \<^verbatim>\<open>[a-z0-9-._~]\<close>\<close>

definition name_first :: "char \<Rightarrow> bool" where
  "name_first c = (is_lower c \<or> is_digit c \<or> one_of ''-~'' c)"

definition name_next :: "char \<Rightarrow> bool" where
  "name_next c = (is_lower c \<or> is_digit c \<or> one_of ''-._~'' c)"

text \<open>\<^verbatim>\<open>/^(@[a-z0-9-~][a-z0-9-._~]*\/)?[a-z0-9-~][a-z0-9-._~]*$/i\<close>\<close>

definition package_name_pattern :: regex where
  "package_name_pattern =
     seqs [Bol,
           Opt (Grp 1 (seqs [lit ''@'', Sym (ci name_first), Star (Sym (ci name_next)), lit ''/''])),
           Sym (ci name_first), Star (Sym (ci name_next)), Eol]"

definition parseInputType :: "string \<Rightarrow> ParsedInput" where
  "parseInputType input =
     (let trimmed = trim input in
      case match_site NPM_SITE_REGISTRY_MAP trimmed of
        Some r \<Rightarrow> r
      | None \<Rightarrow>
          if startsWith trimmed ''http://'' \<or> startsWith trimmed ''https://''
             \<or> startsWith trimmed ''git@''
          then \<lparr>input_type = git_url, input_value = trimmed, registry = None\<rparr>
          else if re_test False package_name_pattern trimmed
          then \<lparr>input_type = npm_package, input_value = trimmed, registry = None\<rparr>
          else \<lparr>input_type = git_url, input_value = trimmed, registry = None\<rparr>)"

section \<open>Git URLs\<close>

datatype GitPlatform = github | gitlab

record RemoteRepoInfo =
  platform :: GitPlatform
  owner :: string
  repo :: string
  branch :: "string option"

text \<open>\<^verbatim>\<open>[^\/]\<close>\<close>

definition not_slash :: "char \<Rightarrow> bool" where
  "not_slash c = (c \<noteq> CHR ''/'')"

text \<open>
  The four patterns of \<^verbatim>\<open>parseGitUrl\<close>, in the order of the array:
  \<^verbatim>\<open>/^https?:\/\/github\.com\/([^\/]+)\/([^\/]+?)(?:\.git)?(?:\/tree\/([^\/]+))?$/\<close>,
  \<^verbatim>\<open>/^git@github\.com:([^\/]+)\/([^\/]+?)(?:\.git)?$/\<close>,
  \<^verbatim>\<open>/^https?:\/\/gitlab\.com\/([^\/]+)\/([^\/]+?)(?:\.git)?(?:\/-\/tree\/([^\/]+))?$/\<close>,
  \<^verbatim>\<open>/^git@gitlab\.com:([^\/]+)\/([^\/]+?)(?:\.git)?$/\<close>.
\<close>

definition git_patterns :: "regex list" where
  "git_patterns =
     [seqs [Bol, lit ''http'', Opt (lit ''s''), lit ''://github.com/'',
            Grp 1 (Plus (Sym not_slash)), lit ''/'', Grp 2 (LazyPlus (Sym not_slash)),
            Opt (lit ''.git''), Opt (seqs [lit ''/tree/'', Grp 3 (Plus (Sym not_slash))]), Eol],
      seqs [Bol, lit ''git@github.com:'',
            Grp 1 (Plus (Sym not_slash)), lit ''/'', Grp 2 (LazyPlus (Sym not_slash)),
            Opt (lit ''.git''), Eol],
      seqs [Bol, lit ''http'', Opt (lit ''s''), lit ''://gitlab.com/'',
            Grp 1 (Plus (Sym not_slash)), lit ''/'', Grp 2 (LazyPlus (Sym not_slash)),
            Opt (lit ''.git''), Opt (seqs [lit ''/-/tree/'', Grp 3 (Plus (Sym not_slash))]), Eol],
      seqs [Bol, lit ''git@gitlab.com:'',
            Grp 1 (Plus (Sym not_slash)), lit ''/'', Grp 2 (LazyPlus (Sym not_slash)),
            Opt (lit ''.git''), Eol]]"

text \<open>The loop over the patterns; groups 1 and 2 take part in every match.\<close>

fun match_git :: "regex list \<Rightarrow> string \<Rightarrow> error + RemoteRepoInfo" where
  "match_git [] url = Inl (Error (''Invalid Git URL: '' @ url))"
| "match_git (pattern # ps) url =
     (case re_match False pattern url of
        Some g \<Rightarrow>
          (let isGitlab = str_includes url ''gitlab'' in
           Inr \<lparr>platform = (if isGitlab then gitlab else github),
                owner = (case g 1 of Some v \<Rightarrow> v | None \<Rightarrow> []),
                repo = re_replace False (seqs [lit ''.git'', Eol])
                         (case g 2 of Some v \<Rightarrow> v | None \<Rightarrow> []) [],
                branch = g 3\<rparr>)
      | None \<Rightarrow> match_git ps url)"

definition parseGitUrl :: "string \<Rightarrow> error + RemoteRepoInfo" where
  "parseGitUrl url = match_git git_patterns url"

section \<open>Remote File Fetcher (services/remote.ts)\<close>

text \<open>
  \<^verbatim>\<open>branch || 'HEAD'\<close>
\<close>

definition ref_of :: "string option \<Rightarrow> string" where
  "ref_of b = (case b of None \<Rightarrow> ''HEAD'' | Some r \<Rightarrow> if r = [] then ''HEAD'' else r)"

text \<open>
  The body of both fetchers after the URL is built: \<^verbatim>\<open>null\<close> when \<^verbatim>\<open>fetch\<close> throws
  or the response is not ok; otherwise \<^verbatim>\<open>return response.text()\<close>, which is not awaited
  inside the \<^verbatim>\<open>try\<close>, so a failure to read the body rejects the call.
\<close>

definition fetch_text :: "host \<Rightarrow> string \<Rightarrow> error + string option" where
  "fetch_text h url =
     (case fetch h url of
        NetworkError \<Rightarrow> Inr None
      | Response good b \<Rightarrow>
          if \<not> good then Inr None
          else (case b of None \<Rightarrow> Inl (Error ''body'') | Some t \<Rightarrow> Inr (Some t)))"

definition fetchGitHubFile :: "host \<Rightarrow> string \<Rightarrow> string \<Rightarrow> string \<Rightarrow> string option
    \<Rightarrow> error + string option" where
  "fetchGitHubFile h ownr rpo path b =
     fetch_text h (''https://api.github.com/repos/'' @ ownr @ ''/'' @ rpo @ ''/contents/''
                   @ path @ ''?ref='' @ ref_of b)"

definition fetchGitLabFile :: "host \<Rightarrow> string \<Rightarrow> string \<Rightarrow> string \<Rightarrow> string option
    \<Rightarrow> error + string option" where
  "fetchGitLabFile h ownr rpo path b =
     (let projectId = encodeURIComponent (ownr @ ''/'' @ rpo);
          encodedPath = encodeURIComponent path
      in fetch_text h (''https://gitlab.com/api/v4/projects/'' @ projectId
                       @ ''/repository/files/'' @ encodedPath @ ''/raw?ref='' @ ref_of b))"

definition fetchRepoFile :: "host \<Rightarrow> RemoteRepoInfo \<Rightarrow> string \<Rightarrow> error + string option" where
  "fetchRepoFile h repoInfo filePath =
     (if platform repoInfo = github
      then fetchGitHubFile h (owner repoInfo) (repo repoInfo) filePath (branch repoInfo)
      else fetchGitLabFile h (owner repoInfo) (repo repoInfo) filePath (branch repoInfo))"

text \<open>\<^verbatim>\<open>if (content)\<close>: a file was fetched and is not empty.\<close>

definition present :: "string option \<Rightarrow> bool" where
  "present c = (case c of None \<Rightarrow> False | Some t \<Rightarrow> t \<noteq> [])"

section \<open>Manifest: package.json\<close>

text \<open>
  \<^verbatim>\<open>parsePackageJson\<close>: the two dependency maps, each \<^verbatim>\<open>{}\<close> when the field is
  falsy; both \<^verbatim>\<open>{}\<close> when parsing throws or the parsed value is \<^verbatim>\<open>null\<close>.
\<close>

definition parsePackageJson :: "host \<Rightarrow> string \<Rightarrow> json \<times> json" where
  "parsePackageJson h content =
     (case JSON_parse h content of
        None \<Rightarrow> (JObj [], JObj [])
      | Some pkg \<Rightarrow>
          (case get_prop (Some pkg) ''dependencies'' of
             Inl e \<Rightarrow> (JObj [], JObj [])
           | Inr deps \<Rightarrow>
               (case get_prop (Some pkg) ''devDependencies'' of
                  Inl e \<Rightarrow> (JObj [], JObj [])
                | Inr devDeps \<Rightarrow> (js_or_else deps (JObj []), js_or_else devDeps (JObj [])))))"

record RemotePackageInfo =
  pkg_name :: string
  pkg_version :: string
  isDev :: bool

text \<open>\<^verbatim>\<open>/^[\^~>=<]/\<close>\<close>

definition range_operator :: regex where
  "range_operator = Seq Bol (Sym (one_of ''^~>=<''))"

text \<open>
  One loop of \<^verbatim>\<open>extractPackages\<close>. \<^verbatim>\<open>version.replace\<close> of a value that is not a
  string is a TypeError.
\<close>

fun push_packages :: "bool \<Rightarrow> (string \<times> json) list \<Rightarrow> RemotePackageInfo list
    \<Rightarrow> error + RemotePackageInfo list" where
  "push_packages dev [] packages = Inr packages"
| "push_packages dev ((name, version) # es) packages =
     (case version of
        JStr v \<Rightarrow>
          push_packages dev es
            (packages @ [\<lparr>pkg_name = name,
                          pkg_version = re_replace False range_operator v [],
                          isDev = dev\<rparr>])
      | _ \<Rightarrow> Inl TypeError)"

definition extractPackages :: "jsval \<Rightarrow> jsval \<Rightarrow> error + RemotePackageInfo list" where
  "extractPackages dependencies devDependencies =
     (case object_entries dependencies of
        Inl e \<Rightarrow> Inl e
      | Inr es \<Rightarrow>
          (case push_packages False es [] of
             Inl e \<Rightarrow> Inl e
           | Inr packages \<Rightarrow>
               (case object_entries devDependencies of
                  Inl e \<Rightarrow> Inl e
                | Inr ds \<Rightarrow> push_packages True ds packages)))"

section \<open>Lock-File Parsers (services/remote.ts)\<close>

text \<open>
  A \<^verbatim>\<open>DependencyNode\<close>. The name and the version of a node are values as the code
  finds them (\<^verbatim>\<open>lock.name || 'root'\<close> is any truthy value of the lock file). The
  optional field \<^verbatim>\<open>isCircular\<close> is never set by the parsers and is left out.
\<close>

datatype DependencyNode = Node (name: json) (version: json) (children: "DependencyNode list")

definition empty_root :: DependencyNode where
  "empty_root = Node (JStr ''root'') (JStr ''0.0.0'') []"

text \<open>
  \<^verbatim>\<open>parseNpmLockFile\<close>, the loop over \<^verbatim>\<open>Object.entries(packages)\<close>: an entry is kept
  when its path starts with \<^verbatim>\<open>node_modules/\<close> and the rest of the path, split at
  \<^verbatim>\<open>node_modules/\<close>, is one piece. Reading \<^verbatim>\<open>info.version\<close> of \<^verbatim>\<open>null\<close> throws.
\<close>

fun npm_packages_loop :: "(string \<times> json) list \<Rightarrow> DependencyNode list
    \<Rightarrow> error + DependencyNode list" where
  "npm_packages_loop [] cs = Inr cs"
| "npm_packages_loop ((path, info) # es) cs =
     (if path = [] \<or> \<not> startsWith path ''node_modules/'' then npm_packages_loop es cs
      else
        (case split (str_replace path ''node_modules/'' []) ''node_modules/'' of
           [part] \<Rightarrow>
             (case get_prop (Some info) ''version'' of
                Inl e \<Rightarrow> Inl e
              | Inr v \<Rightarrow>
                  npm_packages_loop es (cs @ [Node (JStr part) (js_or_else v (JStr ''0.0.0'')) []]))
         | _ \<Rightarrow> npm_packages_loop es cs))"

text \<open>The loop over \<^verbatim>\<open>Object.entries(deps)\<close> (lock files before version 2).\<close>

fun npm_deps_loop :: "(string \<times> json) list \<Rightarrow> DependencyNode list
    \<Rightarrow> error + DependencyNode list" where
  "npm_deps_loop [] cs = Inr cs"
| "npm_deps_loop ((nm, info) # es) cs =
     (case get_prop (Some info) ''version'' of
        Inl e \<Rightarrow> Inl e
      | Inr v \<Rightarrow> npm_deps_loop es (cs @ [Node (JStr nm) (js_or_else v (JStr ''0.0.0'')) []]))"

text \<open>The body of the \<^verbatim>\<open>try\<close> block, after \<^verbatim>\<open>JSON.parse\<close>.\<close>

definition npm_lock_tree :: "json \<Rightarrow> error + DependencyNode" where
  "npm_lock_tree lock =
     (case get_prop (Some lock) ''name'' of Inl e \<Rightarrow> Inl e | Inr nm \<Rightarrow>
      case get_prop (Some lock) ''version'' of Inl e \<Rightarrow> Inl e | Inr ver \<Rightarrow>
      case get_prop (Some lock) ''packages'' of Inl e \<Rightarrow> Inl e | Inr pk \<Rightarrow>
      case get_prop (Some lock) ''dependencies'' of Inl e \<Rightarrow> Inl e | Inr dp \<Rightarrow>
      (let root_name = js_or_else nm (JStr ''root'');
           root_version = js_or_else ver (JStr ''0.0.0'');
           packages = js_or_else pk (JObj []);
           deps = js_or_else dp (JObj [])
       in case object_entries (Some packages) of Inl e \<Rightarrow> Inl e | Inr pes \<Rightarrow>
          if 0 < length pes then
            (case npm_packages_loop pes [] of
               Inl e \<Rightarrow> Inl e
             | Inr cs \<Rightarrow> Inr (Node root_name root_version cs))
          else
            (case object_entries (Some deps) of Inl e \<Rightarrow> Inl e | Inr des \<Rightarrow>
             if 0 < length des then
               (case npm_deps_loop des [] of
                  Inl e \<Rightarrow> Inl e
                | Inr cs \<Rightarrow> Inr (Node root_name root_version cs))
             else Inr (Node root_name root_version []))))"

definition parseNpmLockFile :: "host \<Rightarrow> string \<Rightarrow> DependencyNode" where
  "parseNpmLockFile h content =
     (case JSON_parse h content of
        None \<Rightarrow> empty_root
      | Some lock \<Rightarrow> (case npm_lock_tree lock of Inl e \<Rightarrow> empty_root | Inr root \<Rightarrow> root))"

text \<open>
  \<^verbatim>\<open>/^"?([^@\s]+)@[^"]+?"?:\s*\n\s+version\s+"([^"]+)"/gm\<close> of \<^verbatim>\<open>parseYarnLockFile\<close>
\<close>

definition yarn_entry :: regex where
  "yarn_entry =
     seqs [Bol, Opt (lit [CHR 0x22]),
           Grp 1 (Plus (Sym (\<lambda>c. c \<noteq> CHR ''@'' \<and> \<not> is_space c))),
           lit ''@'', LazyPlus (Sym (\<lambda>c. c \<noteq> CHR 0x22)), Opt (lit [CHR 0x22]), lit '':'',
           Star (Sym is_space), lit [CHR 0x0A], Plus (Sym is_space),
           lit ''version'', Plus (Sym is_space), lit [CHR 0x22],
           Grp 2 (Plus (Sym (\<lambda>c. c \<noteq> CHR 0x22))), lit [CHR 0x22]]"

text \<open>
  The name and the version of a match: groups 1 and 2, which take part in every match
  of the two entry patterns.
\<close>

definition match_entry :: "(nat \<Rightarrow> string option) \<Rightarrow> string \<times> string" where
  "match_entry g =
     ((case g 1 of Some v \<Rightarrow> v | None \<Rightarrow> []), (case g 2 of Some v \<Rightarrow> v | None \<Rightarrow> []))"

text \<open>The entries that the loop of \<^verbatim>\<open>parseYarnLockFile\<close> meets, in order.\<close>

definition yarn_entries :: "string \<Rightarrow> (string \<times> string) list option" where
  "yarn_entries content = map_option (map match_entry) (exec_loop True yarn_entry 0 [] content)"

text \<open>The body of the loop: an entry is pushed unless its name was seen.\<close>

fun push_unseen :: "(string \<times> string) list \<Rightarrow> string set \<Rightarrow> DependencyNode list
    \<Rightarrow> DependencyNode list" where
  "push_unseen [] seen cs = cs"
| "push_unseen ((nm, ver) # es) seen cs =
     (if nm \<notin> seen then push_unseen es (insert nm seen) (cs @ [Node (JStr nm) (JStr ver) []])
      else push_unseen es seen cs)"

text \<open>\<open>None\<close>: the loop does not end.\<close>

definition parseYarnLockFile :: "string \<Rightarrow> DependencyNode option" where
  "parseYarnLockFile content =
     map_option (\<lambda>es. Node (JStr ''root'') (JStr ''0.0.0'') (push_unseen es {} []))
       (yarn_entries content)"

text \<open>
  \<^verbatim>\<open>/^[a-z]/i\<close> and \<^verbatim>\<open>/^\s+['"]?\/?([@\w\-./]+)@(\d+\.\d+\.\d+[^'":]*)/\<close> of
  \<^verbatim>\<open>parsePnpmLockFile\<close>
\<close>

definition top_level_key :: regex where
  "top_level_key = Seq Bol (Sym (ci is_lower))"

definition pnpm_entry :: regex where
  "pnpm_entry =
     seqs [Bol, Plus (Sym is_space), Opt (Sym (one_of [CHR 0x27, CHR 0x22])), Opt (lit ''/''),
           Grp 1 (Plus (Sym (\<lambda>c. c = CHR ''@'' \<or> is_word c \<or> one_of ''-./'' c))),
           lit ''@'',
           Grp 2 (seqs [Plus (Sym is_digit), lit ''.'', Plus (Sym is_digit), lit ''.'',
                        Plus (Sym is_digit),
                        Star (Sym (none_of [CHR 0x27, CHR 0x22, CHR '':'']))])]"

text \<open>
  The loop over the lines, with the flag \<^verbatim>\<open>inPackages\<close>, the set \<^verbatim>\<open>seen\<close> and the
  children pushed so far.
\<close>

fun pnpm_loop :: "string list \<Rightarrow> bool \<Rightarrow> string set \<Rightarrow> DependencyNode list
    \<Rightarrow> DependencyNode list" where
  "pnpm_loop [] inPackages seen cs = cs"
| "pnpm_loop (line # ls) inPackages seen cs =
     (if startsWith line ''packages:'' then pnpm_loop ls True seen cs
      else if inPackages \<and> re_test False top_level_key line then cs
      else if inPackages then
        (case re_match False pnpm_entry line of
           Some g \<Rightarrow>
             (let (nm, ver) = match_entry g in
              if nm \<notin> seen
              then pnpm_loop ls inPackages (insert nm seen) (cs @ [Node (JStr nm) (JStr ver) []])
              else pnpm_loop ls inPackages seen cs)
         | None \<Rightarrow> pnpm_loop ls inPackages seen cs)
      else pnpm_loop ls inPackages seen cs)"

definition parsePnpmLockFile :: "string \<Rightarrow> DependencyNode" where
  "parsePnpmLockFile content =
     Node (JStr ''root'') (JStr ''0.0.0'') (pnpm_loop (split content [CHR 0x0A]) False {} [])"

datatype LockType = npm | yarn | pnpm

text \<open>
  \<^verbatim>\<open>parseLockFile\<close>. The \<^verbatim>\<open>default\<close> branch of the switch is not reached by a value
  of the declared type.
\<close>

fun parseLockFile :: "host \<Rightarrow> string \<Rightarrow> LockType \<Rightarrow> DependencyNode option" where
  "parseLockFile h content npm = Some (parseNpmLockFile h content)"
| "parseLockFile h content yarn = parseYarnLockFile content"
| "parseLockFile h content pnpm = Some (parsePnpmLockFile content)"

subsection \<open>The entries a parser reads and the children it makes of them\<close>

text \<open>
  The number of \<^verbatim>\<open>node_modules/\<close> segments of a path, and the package a path names: the
  text after its last \<^verbatim>\<open>node_modules/\<close>.
\<close>

definition segment_count :: "string \<Rightarrow> nat" where
  "segment_count path = length (split path ''node_modules/'') - 1"

definition package_of_path :: "string \<Rightarrow> string" where
  "package_of_path path = last (split path ''node_modules/'')"

text \<open>An entry whose path is \<^verbatim>\<open>node_modules/\<close> followed by a name, with no further segment.\<close>

definition top_level :: "string \<times> json \<Rightarrow> bool" where
  "top_level e = (startsWith (fst e) ''node_modules/'' \<and> segment_count (fst e) = 1)"

text \<open>
  The child pushed for an entry of \<^verbatim>\<open>packages\<close> and for an entry of
  \<^verbatim>\<open>dependencies\<close>, when its value is not \<^verbatim>\<open>null\<close>.
\<close>

definition npm_child :: "string \<times> json \<Rightarrow> DependencyNode" where
  "npm_child e =
     Node (JStr (drop (length ''node_modules/'') (fst e)))
          (js_or_else (opt_prop (Some (snd e)) ''version'') (JStr ''0.0.0'')) []"

definition npm_dep_child :: "string \<times> json \<Rightarrow> DependencyNode" where
  "npm_dep_child e =
     Node (JStr (fst e)) (js_or_else (opt_prop (Some (snd e)) ''version'') (JStr ''0.0.0'')) []"

text \<open>
  The entries that the npm parser loops over: those of \<^verbatim>\<open>packages\<close> when there are
  any, else those of \<^verbatim>\<open>dependencies\<close>.
\<close>

definition entries_of :: "json \<Rightarrow> (string \<times> json) list" where
  "entries_of v = (case object_entries (Some v) of Inl e \<Rightarrow> [] | Inr es \<Rightarrow> es)"

definition npm_entries :: "host \<Rightarrow> string \<Rightarrow> (string \<times> json) list" where
  "npm_entries h content =
     (case JSON_parse h content of
        None \<Rightarrow> []
      | Some lock \<Rightarrow>
          (let pes = entries_of (js_or_else (opt_prop (Some lock) ''packages'') (JObj []))
           in if pes \<noteq> [] then pes
              else entries_of (js_or_else (opt_prop (Some lock) ''dependencies'') (JObj []))))"

text \<open>
  The entries of \<^verbatim>\<open>lock.packages || {}\<close> and of \<^verbatim>\<open>lock.dependencies || {}\<close>.
\<close>

definition lock_packages :: "json \<Rightarrow> (string \<times> json) list" where
  "lock_packages lock = entries_of (js_or_else (opt_prop (Some lock) ''packages'') (JObj []))"

definition lock_dependencies :: "json \<Rightarrow> (string \<times> json) list" where
  "lock_dependencies lock =
     entries_of (js_or_else (opt_prop (Some lock) ''dependencies'') (JObj []))"

text \<open>
  The parsed lock file on which the body of \<^verbatim>\<open>parseNpmLockFile\<close> throws: it is
  \<^verbatim>\<open>null\<close>, or an entry whose version the loop reads is \<^verbatim>\<open>null\<close>.
\<close>

definition npm_unreadable :: "json \<Rightarrow> bool" where
  "npm_unreadable lock =
     (lock = JNull
      \<or> (if lock_packages lock \<noteq> []
          then list_ex (\<lambda>e. top_level e \<and> snd e = JNull) (lock_packages lock)
          else list_ex (\<lambda>e. snd e = JNull) (lock_dependencies lock)))"

text \<open>
  The children made of a parsed lock file: one for each top-level entry of
  \<^verbatim>\<open>packages\<close> when \<^verbatim>\<open>packages\<close> has entries, else one for each entry of
  \<^verbatim>\<open>dependencies\<close>.
\<close>

definition npm_children :: "json \<Rightarrow> DependencyNode list" where
  "npm_children lock =
     (if lock_packages lock \<noteq> [] then map npm_child (filter top_level (lock_packages lock))
      else map npm_dep_child (lock_dependencies lock))"

text \<open>
  The version of the child named \<open>nm\<close> among some children, and the version that the
  entry at a path of the lock file gives: its \<^verbatim>\<open>version\<close> when truthy, else
  \<^verbatim>\<open>0.0.0\<close>.
\<close>

definition version_of :: "DependencyNode list \<Rightarrow> string \<Rightarrow> json option" where
  "version_of kids nm = map_of (map (\<lambda>c. (name c, version c)) kids) (JStr nm)"

definition entry_version :: "(string \<times> json) list \<Rightarrow> string \<Rightarrow> json option" where
  "entry_version es path =
     map_option (\<lambda>info. js_or_else (opt_prop (Some info) ''version'') (JStr ''0.0.0''))
       (map_of es path)"

text \<open>
  The direct dependencies that a lock file records for the project: the names under
  \<^verbatim>\<open>dependencies\<close> and \<^verbatim>\<open>devDependencies\<close> of the entry with the empty path.
\<close>

definition direct_dependencies :: "json \<Rightarrow> string list" where
  "direct_dependencies lock =
     (let project = map_of (lock_packages lock) [] in
      map fst (entries_of (js_or_else (opt_prop project ''dependencies'') (JObj [])))
      @ map fst (entries_of (js_or_else (opt_prop project ''devDependencies'') (JObj []))))"

text \<open>The child pushed for an entry of a yarn or pnpm lock file.\<close>

definition entry_node :: "string \<times> string \<Rightarrow> DependencyNode" where
  "entry_node e = Node (JStr (fst e)) (JStr (snd e)) []"

text \<open>The entries that \<open>push_unseen\<close> pushes: the first of each name that is not in \<open>seen\<close>.\<close>

fun unseen_entries :: "(string \<times> string) list \<Rightarrow> string set \<Rightarrow> (string \<times> string) list" where
  "unseen_entries [] seen = []"
| "unseen_entries ((nm, ver) # es) seen =
     (if nm \<notin> seen then (nm, ver) # unseen_entries es (insert nm seen)
      else unseen_entries es seen)"

text \<open>The entries that the loop of \<^verbatim>\<open>parsePnpmLockFile\<close> meets, in order.\<close>

fun pnpm_entries :: "string list \<Rightarrow> bool \<Rightarrow> (string \<times> string) list" where
  "pnpm_entries [] inPackages = []"
| "pnpm_entries (line # ls) inPackages =
     (if startsWith line ''packages:'' then pnpm_entries ls True
      else if inPackages \<and> re_test False top_level_key line then []
      else if inPackages then
        (case re_match False pnpm_entry line of
           Some g \<Rightarrow> match_entry g # pnpm_entries ls inPackages
         | None \<Rightarrow> pnpm_entries ls inPackages)
      else pnpm_entries ls inPackages)"

text \<open>
  Deduplicated by name, first occurrence wins (section 4.5 of the specification): the
  children have pairwise distinct names, every child carries the version of the first
  entry of its name, and every entry name has a child.
\<close>

definition first_wins :: "(string \<times> string) list \<Rightarrow> DependencyNode list \<Rightarrow> bool" where
  "first_wins es kids \<longleftrightarrow>
     distinct (map name kids)
     \<and> (\<forall>c \<in> set kids. \<exists>nm ver. c = Node (JStr nm) (JStr ver) [] \<and> map_of es nm = Some ver)
     \<and> (\<forall>e \<in> set es. JStr (fst e) \<in> name ` set kids)"

section \<open>Vulnerability Checker: severity of an OSV advisory\<close>

text \<open>
  \<^verbatim>\<open>mapOsvSeverity\<close> of services/remote.ts. The declared parameter type is
  \<^verbatim>\<open>string | undefined\<close>; the caller passes a field of the parsed response, so the
  model takes any value: \<^verbatim>\<open>toLowerCase\<close> of a truthy non-string is a TypeError.
\<close>

fun mapOsvSeverity :: "jsval \<Rightarrow> error + string" where
  "mapOsvSeverity severity =
     (if \<not> truthy severity then Inr ''moderate''
      else case severity of
        Some (JStr str) \<Rightarrow>
          (let s = toLowerCase str in
           if s = ''critical'' then Inr ''critical''
           else if s = ''high'' then Inr ''high''
           else if s = ''moderate'' \<or> s = ''medium'' then Inr ''moderate''
           else Inr ''low'')
      | _ \<Rightarrow> Inl TypeError)"

text \<open>
  The argument built in \<^verbatim>\<open>checkVulnerabilities\<close>:
  \<^verbatim>\<open>mapOsvSeverity(vuln.severity || vuln.database_specific?.severity)\<close>.
\<close>

definition osv_vuln_severity :: "jsval \<Rightarrow> error + string" where
  "osv_vuln_severity vuln =
     (case get_prop vuln ''severity'' of
        Inl e \<Rightarrow> Inl e
      | Inr sev \<Rightarrow>
          (if truthy sev then mapOsvSeverity sev
           else case get_prop vuln ''database_specific'' of
                  Inl e \<Rightarrow> Inl e
                | Inr ds \<Rightarrow> mapOsvSeverity (js_or sev (opt_prop ds ''severity''))))"

section \<open>Vulnerability Checker (services/remote.ts)\<close>

text \<open>
  \<^verbatim>\<open>VulnerabilityInfo\<close>, each field with the values that the code puts there: the types
  of the source are erased when the code runs, and a field read from parsed JSON holds
  whatever the JSON holds.
\<close>

record VulnerabilityInfo =
  vuln_id :: jsval
  title :: jsval
  severity :: json
  vuln_package :: json
  vuln_version :: json
  recommendation :: json
  url :: jsval

text \<open>
  \<^verbatim>\<open>e.fixed\<close>. A string inherits the method \<^verbatim>\<open>fixed\<close> of \<^verbatim>\<open>String.prototype\<close>, so
  the property of a string is that function, a truthy value that no JSON text denotes;
  no other prototype of a parsed value defines the name.
\<close>

datatype property = Data jsval | String_prototype_fixed

fun get_fixed :: "jsval \<Rightarrow> error + property" where
  "get_fixed (Some (JStr s)) = Inr String_prototype_fixed"
| "get_fixed v = (case get_prop v ''fixed'' of Inl e \<Rightarrow> Inl e | Inr f \<Rightarrow> Inr (Data f))"

fun truthy_property :: "property \<Rightarrow> bool" where
  "truthy_property (Data f) = truthy f"
| "truthy_property String_prototype_fixed = True"

text \<open>
  \<^verbatim>\<open>`${f}`\<close> for a property: the text of a built-in function is the one that Node.js
  gives.
\<close>

fun property_str :: "host \<Rightarrow> property \<Rightarrow> string" where
  "property_str h (Data None) = ''undefined''"
| "property_str h (Data (Some v)) = to_str h v"
| "property_str h String_prototype_fixed = ''function fixed() { [native code] }''"

text \<open>
  \<^verbatim>\<open>events?.find((e) => e.fixed)\<close>: \<^verbatim>\<open>undefined\<close> for \<^verbatim>\<open>null\<close> and \<^verbatim>\<open>undefined\<close>,
  the first element with a truthy \<^verbatim>\<open>fixed\<close> for an array, a TypeError for any other
  value (it has no method \<^verbatim>\<open>find\<close>) and for an element \<^verbatim>\<open>null\<close> met on the way.
\<close>

fun find_fixed :: "json list \<Rightarrow> error + jsval" where
  "find_fixed [] = Inr None"
| "find_fixed (e # es) =
     then_do (get_fixed (Some e))
       (\<lambda>f. if truthy_property f then Inr (Some e) else find_fixed es)"

fun opt_find_fixed :: "jsval \<Rightarrow> error + jsval" where
  "opt_find_fixed None = Inr None"
| "opt_find_fixed (Some JNull) = Inr None"
| "opt_find_fixed (Some (JArr es)) = find_fixed es"
| "opt_find_fixed (Some v) = Inl TypeError"

text \<open>
  \<^verbatim>\<open>vuln.affected?.[0]?.ranges?.[0]?.events?.find((e: any) => e.fixed)?.fixed\<close>; the
  last \<^verbatim>\<open>?.fixed\<close> is \<^verbatim>\<open>undefined\<close> when \<^verbatim>\<open>find\<close> gives \<^verbatim>\<open>undefined\<close>.
\<close>

definition fixed_version :: "jsval \<Rightarrow> error + property" where
  "fixed_version vuln =
     then_do (get_prop vuln ''affected'')
       (\<lambda>affected.
          then_do (opt_find_fixed
                     (opt_prop (opt_index0 (opt_prop (opt_index0 affected) ''ranges'')) ''events''))
            (\<lambda>e. case e of None \<Rightarrow> Inr (Data None) | Some JNull \<Rightarrow> Inr (Data None)
                  | Some v \<Rightarrow> get_fixed e))"

text \<open>
  The object pushed for one advisory \<open>vuln\<close> of the package \<open>pkg\<close> at the same index.
  The recommendation evaluates the chain a second time, without \<^verbatim>\<open>?.\<close>, when the first
  value is truthy; it gives the same value.
\<close>

definition osv_entry :: "host \<Rightarrow> (string \<times> string) option \<Rightarrow> jsval \<Rightarrow> error + VulnerabilityInfo" where
  "osv_entry h pkg vuln =
     then_do (osv_vuln_severity vuln) (\<lambda>sev.
     then_do (get_prop vuln ''id'') (\<lambda>i.
     then_do (get_prop vuln ''summary'') (\<lambda>summary.
     (case pkg of
        None \<Rightarrow> Inl TypeError
      | Some (nm, ver) \<Rightarrow>
          then_do (fixed_version vuln) (\<lambda>fixed.
          then_do (get_prop vuln ''references'') (\<lambda>refs.
            Inr \<lparr>vuln_id = i,
                 title = js_or summary i,
                 severity = JStr sev,
                 vuln_package = JStr nm,
                 vuln_version = JStr ver,
                 recommendation =
                   JStr (if truthy_property fixed then ''Upgrade to '' @ property_str h fixed
                         else ''No fix available''),
                 url = opt_prop (opt_index0 refs) ''url''\<rparr>))))))"

text \<open>The inner loop \<^verbatim>\<open>for (const vuln of result.vulns || [])\<close>.\<close>

fun osv_entries :: "host \<Rightarrow> (string \<times> string) option \<Rightarrow> json list \<Rightarrow> VulnerabilityInfo list
    \<Rightarrow> error + VulnerabilityInfo list" where
  "osv_entries h pkg [] acc = Inr acc"
| "osv_entries h pkg (vuln # vs) acc =
     then_do (osv_entry h pkg (Some vuln)) (\<lambda>v. osv_entries h pkg vs (acc @ [v]))"

text \<open>
  The outer loop \<^verbatim>\<open>for (let i = 0; i < (data.results || []).length; i++)\<close>. It ends when
  the test fails or a step throws; a step throws at the latest at the first index that
  \<open>results\<close> does not hold, so \<open>n\<close> steps are enough when \<open>n\<close> exceeds their number.
\<close>

fun osv_results :: "host \<Rightarrow> (string \<times> string) list \<Rightarrow> json \<Rightarrow> nat \<Rightarrow> nat
    \<Rightarrow> VulnerabilityInfo list \<Rightarrow> error + VulnerabilityInfo list" where
  "osv_results h packages results 0 i acc = Inl (Error ''steps'')"
| "osv_results h packages results (Suc n) i acc =
     (if \<not> index_lt h i (js_length results) then Inr acc
      else
        then_do (get_prop (js_index results i) ''vulns'') (\<lambda>vulns.
        then_do (iterate (js_or_else vulns (JArr []))) (\<lambda>vs.
        then_do (osv_entries h (nth_opt packages i) vs acc) (\<lambda>acc'.
          osv_results h packages results n (Suc i) acc'))))"

text \<open>The number of indices a value holds, from 0 on without a gap.\<close>

fun held_indices :: "json \<Rightarrow> nat" where
  "held_indices (JArr xs) = length xs"
| "held_indices (JStr s) = length s"
| "held_indices (JObj kvs) = length kvs"
| "held_indices v = 0"

text \<open>The indices that a value holds.\<close>

definition held :: "json \<Rightarrow> nat set" where
  "held v = {j. js_index v j \<noteq> None}"

definition checkVulnerabilities :: "host \<Rightarrow> (string \<times> string) list \<Rightarrow> VulnerabilityInfo list" where
  "checkVulnerabilities h packages =
     (if packages = [] then []
      else
        (let queries =
               JArr (map (\<lambda>(nm, ver).
                      JObj [(''package'', JObj [(''name'', JStr nm), (''ecosystem'', JStr ''npm'')]),
                            (''version'', JStr ver)]) packages)
         in case fetch_post h OSV_API (JObj [(''queries'', queries)]) of
              NetworkError \<Rightarrow> []
            | Response good b \<Rightarrow>
                if \<not> good then []
                else
                  (case then_do (response_json h b) (\<lambda>data.
                          then_do (get_prop (Some data) ''results'') (\<lambda>rs.
                            (let results = js_or_else rs (JArr []) in
                             osv_results h packages results (held_indices results + 2) 0 [])))
                   of Inl e \<Rightarrow> [] | Inr vulnerabilities \<Rightarrow> vulnerabilities)))"

section \<open>Update Checker (services/remote.ts)\<close>

record RemoteUpdateInfo =
  upd_name :: string
  currentVersion :: string
  latestVersion :: json
  hasUpdate :: bool

text \<open>The value returned when the response is not ok and by the \<^verbatim>\<open>catch\<close> block.\<close>

definition no_update :: "string \<times> string \<Rightarrow> RemoteUpdateInfo" where
  "no_update pkg =
     \<lparr>upd_name = fst pkg, currentVersion = snd pkg, latestVersion = JStr (snd pkg),
      hasUpdate = False\<rparr>"

text \<open>The \<^verbatim>\<open>try\<close> block of the function mapped over the packages.\<close>

definition lookup_update :: "host \<Rightarrow> string \<times> string \<Rightarrow> error + RemoteUpdateInfo" where
  "lookup_update h pkg =
     (case fetch h (NPM_REGISTRY @ ''/'' @ fst pkg) of
        NetworkError \<Rightarrow> Inl (Error ''fetch'')
      | Response good b \<Rightarrow>
          if \<not> good then Inr (no_update pkg)
          else
            then_do (response_json h b) (\<lambda>data.
            then_do (get_prop (Some data) ''dist-tags'') (\<lambda>tags.
              (let latest = js_or_else (opt_prop tags ''latest'') (JStr (snd pkg)) in
               Inr \<lparr>upd_name = fst pkg, currentVersion = snd pkg, latestVersion = latest,
                    hasUpdate = (latest \<noteq> JStr (snd pkg)
                                 \<and> \<not> str_includes (snd pkg) (to_str h latest))\<rparr>))))"

text \<open>The function mapped over the packages: the \<^verbatim>\<open>try\<close> block with its \<^verbatim>\<open>catch\<close>.\<close>

definition check_update :: "host \<Rightarrow> string \<times> string \<Rightarrow> error + RemoteUpdateInfo" where
  "check_update h pkg =
     (case lookup_update h pkg of Inl e \<Rightarrow> Inr (no_update pkg) | Inr r \<Rightarrow> Inr r)"

text \<open>The entry of one package: what \<open>check_update\<close> resolves to.\<close>

definition update_of :: "host \<Rightarrow> string \<times> string \<Rightarrow> RemoteUpdateInfo" where
  "update_of h pkg = (case lookup_update h pkg of Inl e \<Rightarrow> no_update pkg | Inr r \<Rightarrow> r)"

text \<open>\<^verbatim>\<open>Promise.all\<close>: the list of the results, or a rejection of one of the promises.\<close>

fun promise_all :: "(error + 'a) list \<Rightarrow> error + 'a list" where
  "promise_all [] = Inr []"
| "promise_all (p # ps) =
     (case p of
        Inl e \<Rightarrow> Inl e
      | Inr v \<Rightarrow> (case promise_all ps of Inl e \<Rightarrow> Inl e | Inr vs \<Rightarrow> Inr (v # vs)))"

definition checkUpdates :: "host \<Rightarrow> (string \<times> string) list \<Rightarrow> error + RemoteUpdateInfo list" where
  "checkUpdates h packages = promise_all (map (check_update h) packages)"

section \<open>Remote Analysis Orchestrator: the repository path (services/remote.ts)\<close>

text \<open>\<^verbatim>\<open>detectLockFileType\<close>: the three lock files in the order of the code.\<close>

definition detectLockFileType :: "host \<Rightarrow> RemoteRepoInfo \<Rightarrow> error + (LockType \<times> string) option" where
  "detectLockFileType h repoInfo =
     then_do (fetchRepoFile h repoInfo ''pnpm-lock.yaml'') (\<lambda>c1.
       if present c1 then Inr (Some (pnpm, case c1 of Some t \<Rightarrow> t | None \<Rightarrow> []))
       else
         then_do (fetchRepoFile h repoInfo ''yarn.lock'') (\<lambda>c2.
           if present c2 then Inr (Some (yarn, case c2 of Some t \<Rightarrow> t | None \<Rightarrow> []))
           else
             then_do (fetchRepoFile h repoInfo ''package-lock.json'') (\<lambda>c3.
               if present c3 then Inr (Some (npm, case c3 of Some t \<Rightarrow> t | None \<Rightarrow> []))
               else Inr None)))"

datatype RemoteSourceType = git_source | npm_source

record RemoteAnalysisResult =
  sourceType :: RemoteSourceType
  repoInfo :: "RemoteRepoInfo option"
  packages :: "RemotePackageInfo list"
  dependencyTree :: "DependencyNode option"
  vulnerabilities :: "VulnerabilityInfo list"
  updates :: "RemoteUpdateInfo list"
  lockFileType :: "LockType option"

text \<open>
  The steps of \<^verbatim>\<open>analyzeGitRepo\<close> up to the lock file: the repository, the manifest text,
  the packages and the lock file found. A manifest that is \<^verbatim>\<open>null\<close> or empty throws.
\<close>

definition repo_manifest :: "host \<Rightarrow> string \<Rightarrow> string option
    \<Rightarrow> error + (RemoteRepoInfo \<times> RemotePackageInfo list \<times> (LockType \<times> string) option)" where
  "repo_manifest h repoUrl b =
     then_do (parseGitUrl repoUrl) (\<lambda>parsed.
       (let info = (if present b then parsed\<lparr>branch := b\<rparr> else parsed) in
        then_do (fetchRepoFile h info ''package.json'') (\<lambda>packageJsonContent.
          (case packageJsonContent of
             None \<Rightarrow> Inl (Error ''package.json not found in repository'')
           | Some content \<Rightarrow>
               if content = [] then Inl (Error ''package.json not found in repository'')
               else
                 (let (dependencies, devDependencies) = parsePackageJson h content in
                  then_do (extractPackages (Some dependencies) (Some devDependencies)) (\<lambda>pkgs.
                  then_do (detectLockFileType h info) (\<lambda>lockFile.
                    Inr (info, pkgs, lockFile))))))))"

text \<open>
  \<^verbatim>\<open>analyzeGitRepo\<close>. \<open>None\<close>: the call does not return (the loop of the yarn parser);
  \<open>Some (Inl e)\<close>: the call rejects with \<open>e\<close>.
\<close>

definition analyzeGitRepo :: "host \<Rightarrow> string \<Rightarrow> string option
    \<Rightarrow> (error + RemoteAnalysisResult) option" where
  "analyzeGitRepo h repoUrl b =
     (case repo_manifest h repoUrl b of
        Inl e \<Rightarrow> Some (Inl e)
      | Inr (info, pkgs, lockFile) \<Rightarrow>
          (case (case lockFile of
                   None \<Rightarrow> Some None
                 | Some (ty, content) \<Rightarrow> map_option Some (parseLockFile h content ty)) of
             None \<Rightarrow> None
           | Some tree \<Rightarrow>
               (let packagesForCheck = map (\<lambda>p. (pkg_name p, pkg_version p)) (take 50 pkgs) in
                Some (then_do (checkUpdates h packagesForCheck) (\<lambda>upds.
                        Inr \<lparr>sourceType = git_source,
                             repoInfo = Some info,
                             packages = pkgs,
                             dependencyTree = tree,
                             vulnerabilities = checkVulnerabilities h packagesForCheck,
                             updates = upds,
                             lockFileType = map_option fst lockFile\<rparr>)))))"

section \<open>Audit Normalizer (adapters)\<close>

















subsection \<open>The records that the entries of an audit are built from\<close>













section \<open>Input validation (utils/security.ts)\<close>

text \<open>
  \<^verbatim>\<open>VALID_PACKAGE_NAME\<close>:
  \<^verbatim>\<open>/^(@[a-z0-9-~][a-z0-9-._~]*\/)?[a-z0-9-~][a-z0-9-._~]*(@[a-z0-9^~>=<.*-]+)?$/i\<close>
\<close>

definition version_char :: "char \<Rightarrow> bool" where
  "version_char c = (is_lower c \<or> is_digit c \<or> one_of ''^~>=<.*-'' c)"

definition VALID_PACKAGE_NAME :: regex where
  "VALID_PACKAGE_NAME =
     seqs [Bol,
           Opt (Grp 1 (seqs [lit ''@'', Sym (ci name_first), Star (Sym (ci name_next)), lit ''/''])),
           Sym (ci name_first), Star (Sym (ci name_next)),
           Opt (Grp 2 (seqs [lit ''@'', Plus (Sym (ci version_char))])), Eol]"

text \<open>\<^verbatim>\<open>DANGEROUS_CHARS\<close>: \<^verbatim>\<open>/[;&|`$(){}[\]<>!#*?\\'"]/\<close>\<close>

definition DANGEROUS_CHARS :: regex where
  "DANGEROUS_CHARS =
     Sym (one_of ('';&|$(){}[]<>!#*?'' @ [CHR 0x60, CHR 0x5C, CHR 0x27, CHR 0x22]))"

definition validatePackageName :: "string \<Rightarrow> error + unit" where
  "validatePackageName nm =
     (if nm = [] then Inl (Error ''Package name is required'')
      else if 214 < length nm then Inl (Error ''Package name too long'')
      else if re_test False DANGEROUS_CHARS nm
      then Inl (Error ''Invalid package name: contains dangerous characters'')
      else if \<not> re_test False VALID_PACKAGE_NAME nm
      then Inl (Error (''Invalid package name format: '' @ nm))
      else Inr ())"

text \<open>The loop of \<^verbatim>\<open>validatePackageNames\<close> over the names.\<close>

fun validate_each :: "string list \<Rightarrow> error + unit" where
  "validate_each [] = Inr ()"
| "validate_each (pkg # pkgs) =
     (case validatePackageName pkg of Inl e \<Rightarrow> Inl e | Inr u \<Rightarrow> validate_each pkgs)"

definition validatePackageNames :: "string list \<Rightarrow> error + unit" where
  "validatePackageNames pkgs =
     (if length pkgs = 0 then Inl (Error ''Packages array is required'')
      else if 100 < length pkgs then Inl (Error ''Too many packages (max 100)'')
      else validate_each pkgs)"

section \<open>The system of an adapter\<close>

text \<open>
  What an adapter reaches outside itself. \<^verbatim>\<open>new URL(url).protocol\<close> (\<open>None\<close> when the
  constructor throws); \<^verbatim>\<open>randomUUID()\<close>; \<^verbatim>\<open>Date.now()\<close> when the operation starts and
  when it completes; and \<^verbatim>\<open>execa(file, args, {cwd})\<close>: the run of the child process, given
  by the chunks that its output streams deliver, in order, and by the way it ends (the
  promise resolves, or rejects with an error). All chunks are delivered before the
  promise settles.
\<close>

datatype chunk = Stdout string | Stderr string

record process_run =
  chunks :: "chunk list"
  exit_ok :: bool
  exit_error :: error

record system =
  URL_protocol :: "string \<Rightarrow> string option"
  randomUUID :: string
  now_started :: nat
  now_completed :: nat
  execa :: "string \<Rightarrow> string list \<Rightarrow> string \<Rightarrow> process_run"

text \<open>\<^verbatim>\<open>validateUrl\<close>\<close>

definition validateUrl :: "system \<Rightarrow> string \<Rightarrow> error + unit" where
  "validateUrl sys u =
     (if u = [] then Inl (Error ''URL is required'')
      else if re_test False DANGEROUS_CHARS u then Inl (Error ''URL contains dangerous characters'')
      else case URL_protocol sys u of
             None \<Rightarrow> Inl (Error ''Invalid URL format'')
           | Some proto \<Rightarrow>
               if proto \<noteq> ''http:'' \<and> proto \<noteq> ''https:''
               then Inl (Error ''Only HTTP/HTTPS URLs are allowed'')
               else Inr ())"

section \<open>Progress of an operation (adapters)\<close>

datatype OperationType = install_op | uninstall_op | update_op | audit_op

datatype OperationStatus = pending | running | completed | failed

record OperationProgress =
  op_id :: string
  op_type :: OperationType
  status :: OperationStatus
  package :: "string option"
  progress :: nat
  message :: string
  logs :: "string list"
  startedAt :: nat
  completedAt :: "nat option"

text \<open>
  What an operation does that can be seen from outside, in order: it calls the sink
  \<^verbatim>\<open>onProgress\<close> and it spawns a process. The adapter passes the same object to every
  call of the sink; an event holds the state of the object at the time of the call. The
  sink is optional in the code; the events are those of a call with a sink.
\<close>

datatype event = Progress OperationProgress | Spawn string "string list" string

text \<open>The options of \<^verbatim>\<open>install\<close> and of \<^verbatim>\<open>uninstall\<close>; a flag that is absent is false.\<close>

record InstallOptions =
  dev :: bool
  global :: bool
  workspace :: bool
  filter_name :: "string option"
  registry_url :: "string option"

record UninstallOptions =
  un_global :: bool
  un_workspace :: bool
  un_filter :: "string option"

text \<open>\<^verbatim>\<open>options?.x\<close> as a condition.\<close>

definition opt_flag :: "('a \<Rightarrow> bool) \<Rightarrow> 'a option \<Rightarrow> bool" where
  "opt_flag f options = (case options of None \<Rightarrow> False | Some v \<Rightarrow> f v)"

definition opt_text :: "('a \<Rightarrow> string option) \<Rightarrow> 'a option \<Rightarrow> string option" where
  "opt_text f options =
     (case options of
        None \<Rightarrow> None
      | Some v \<Rightarrow> (case f v of None \<Rightarrow> None | Some t \<Rightarrow> if t = [] then None else Some t))"

text \<open>
  \<^verbatim>\<open>validatePackageNames(packages); if (options?.registry) validateUrl(options.registry)\<close>,
  the first statements of every \<^verbatim>\<open>install\<close>.
\<close>

definition validate_install :: "system \<Rightarrow> string list \<Rightarrow> InstallOptions option \<Rightarrow> error + unit" where
  "validate_install sys pkgs options =
     (case validatePackageNames pkgs of
        Inl e \<Rightarrow> Inl e
      | Inr u \<Rightarrow> (case opt_text registry_url options of
                    None \<Rightarrow> Inr ()
                  | Some r \<Rightarrow> validateUrl sys r))"

text \<open>\<^verbatim>\<open>if (packages.length > 0) validatePackageNames(packages)\<close>, the first statement of every
  \<^verbatim>\<open>update\<close>.\<close>

definition validate_update :: "string list \<Rightarrow> error + unit" where
  "validate_update pkgs = (if 0 < length pkgs then validatePackageNames pkgs else Inr ())"

text \<open>The progress object that an operation creates.\<close>

definition new_progress :: "system \<Rightarrow> OperationType \<Rightarrow> string \<Rightarrow> string \<Rightarrow> OperationProgress" where
  "new_progress sys ty pkg msg =
     \<lparr>op_id = randomUUID sys, op_type = ty, status = running, package = Some pkg, progress = 0,
      message = msg, logs = [], startedAt = now_started sys, completedAt = None\<rparr>"

text \<open>
  The two handlers of \<^verbatim>\<open>install\<close>, run over the chunks: a chunk of the standard output
  is logged, advances the progress by \<open>step\<close> up to 90 and is reported; a chunk of the
  standard error is logged and reported. The result is the reports and the object after
  the last chunk.
\<close>

fun on_data :: "nat \<Rightarrow> chunk list \<Rightarrow> OperationProgress \<Rightarrow> event list \<times> OperationProgress" where
  "on_data step [] p = ([], p)"
| "on_data step (Stdout d # cs) p =
     (let p' = p\<lparr>logs := logs p @ [d], progress := min (progress p + step) 90\<rparr>;
          (evs, q) = on_data step cs p'
      in (Progress p' # evs, q))"
| "on_data step (Stderr d # cs) p =
     (let p' = p\<lparr>logs := logs p @ [d]\<rparr>;
          (evs, q) = on_data step cs p'
      in (Progress p' # evs, q))"

text \<open>The statements after \<^verbatim>\<open>await\<close>: the object is completed and reported.\<close>

definition complete :: "system \<Rightarrow> string \<Rightarrow> OperationProgress \<Rightarrow> OperationProgress" where
  "complete sys msg p =
     p\<lparr>status := completed, progress := 100, message := msg,
       completedAt := Some (now_completed sys)\<rparr>"

text \<open>
  The body of an \<^verbatim>\<open>install\<close> after its arguments are built: the object is reported,
  the process is spawned, its chunks are handled, and when the process succeeds the
  completed object is reported. When the process fails the call rejects and nothing more
  is reported.
\<close>

definition run_streamed :: "system \<Rightarrow> nat \<Rightarrow> string \<Rightarrow> string list \<Rightarrow> string
    \<Rightarrow> OperationProgress \<Rightarrow> string \<Rightarrow> event list \<times> (error + unit)" where
  "run_streamed sys step file args cwd p0 done_msg =
     (let run = execa sys file args cwd;
          (evs, p) = on_data step (chunks run) p0
      in if exit_ok run
         then ([Progress p0, Spawn file args cwd] @ evs @ [Progress (complete sys done_msg p)], Inr ())
         else ([Progress p0, Spawn file args cwd] @ evs, Inl (exit_error run)))"

text \<open>The body of an \<^verbatim>\<open>uninstall\<close> or \<^verbatim>\<open>update\<close>: the output of the process is not read.\<close>

definition run_awaited :: "system \<Rightarrow> string \<Rightarrow> string list \<Rightarrow> string
    \<Rightarrow> OperationProgress \<Rightarrow> string \<Rightarrow> event list \<times> (error + unit)" where
  "run_awaited sys file args cwd p0 done_msg =
     (let run = execa sys file args cwd
      in if exit_ok run
         then ([Progress p0, Spawn file args cwd, Progress (complete sys done_msg p0)], Inr ())
         else ([Progress p0, Spawn file args cwd], Inl (exit_error run)))"

text \<open>\<^verbatim>\<open>packages.join(', ') || 'all'\<close>\<close>

definition joined_or_all :: "string list \<Rightarrow> string" where
  "joined_or_all pkgs = (if join pkgs '', '' = [] then ''all'' else join pkgs '', '')"

section \<open>The npm adapter\<close>

definition npm_install :: "system \<Rightarrow> string list \<Rightarrow> string \<Rightarrow> InstallOptions option
    \<Rightarrow> event list \<times> (error + unit)" where
  "npm_install sys pkgs cwd options =
     (case validate_install sys pkgs options of
        Inl e \<Rightarrow> ([], Inl e)
      | Inr u \<Rightarrow>
          (let args = [''install''] @ pkgs
                 @ (if opt_flag dev options then [''--save-dev''] else [])
                 @ (if opt_flag global options then [''-g''] else [])
                 @ (if opt_flag workspace options then [''-w''] else [])
                 @ (case opt_text filter_name options of None \<Rightarrow> [] | Some f \<Rightarrow> [''-w'', f])
                 @ (case opt_text registry_url options of None \<Rightarrow> []
                    | Some r \<Rightarrow> [''--registry'', r])
           in run_streamed sys 10 ''npm'' args cwd
                (new_progress sys install_op (join pkgs '', '') ''Installing...'')
                ''Installation complete''))"

definition npm_uninstall :: "system \<Rightarrow> string list \<Rightarrow> string \<Rightarrow> UninstallOptions option
    \<Rightarrow> event list \<times> (error + unit)" where
  "npm_uninstall sys pkgs cwd options =
     (case validatePackageNames pkgs of
        Inl e \<Rightarrow> ([], Inl e)
      | Inr u \<Rightarrow>
          (let args = [''uninstall''] @ pkgs
                 @ (if opt_flag un_global options then [''-g''] else [])
                 @ (if opt_flag un_workspace options then [''-w''] else [])
                 @ (case opt_text un_filter options of None \<Rightarrow> [] | Some f \<Rightarrow> [''-w'', f])
           in run_awaited sys ''npm'' args cwd
                (new_progress sys uninstall_op (join pkgs '', '') ''Uninstalling...'')
                ''Uninstallation complete''))"

definition npm_update :: "system \<Rightarrow> string list \<Rightarrow> string \<Rightarrow> event list \<times> (error + unit)" where
  "npm_update sys pkgs cwd =
     (case validate_update pkgs of
        Inl e \<Rightarrow> ([], Inl e)
      | Inr u \<Rightarrow>
          run_awaited sys ''npm'' ([''update''] @ pkgs) cwd
            (new_progress sys update_op (joined_or_all pkgs) ''Updating...'')
            ''Update complete'')"

section \<open>The yarn adapter\<close>

definition yarn_install :: "system \<Rightarrow> string list \<Rightarrow> string \<Rightarrow> InstallOptions option
    \<Rightarrow> event list \<times> (error + unit)" where
  "yarn_install sys pkgs cwd options =
     (case validate_install sys pkgs options of
        Inl e \<Rightarrow> ([], Inl e)
      | Inr u \<Rightarrow>
          (let args = (case opt_text filter_name options of None \<Rightarrow> []
                       | Some f \<Rightarrow> [''workspace'', f])
                 @ (if opt_flag global options then [''global'', ''add''] @ pkgs
                    else [''add''] @ pkgs)
                 @ (if opt_flag dev options then [''--dev''] else [])
                 @ (if opt_flag workspace options then [''-W''] else [])
                 @ (case opt_text registry_url options of None \<Rightarrow> []
                    | Some r \<Rightarrow> [''--registry'', r])
           in run_streamed sys 10 ''yarn'' args cwd
                (new_progress sys install_op (join pkgs '', '') ''Installing with Yarn...'')
                ''Installation complete''))"

definition yarn_uninstall :: "system \<Rightarrow> string list \<Rightarrow> string \<Rightarrow> UninstallOptions option
    \<Rightarrow> event list \<times> (error + unit)" where
  "yarn_uninstall sys pkgs cwd options =
     (case validatePackageNames pkgs of
        Inl e \<Rightarrow> ([], Inl e)
      | Inr u \<Rightarrow>
          (let args = (case opt_text un_filter options of
                         Some f \<Rightarrow> [''workspace'', f, ''remove''] @ pkgs
                       | None \<Rightarrow>
                           (if opt_flag un_global options then [''global'', ''remove''] @ pkgs
                            else [''remove''] @ pkgs)
                           @ (if opt_flag un_workspace options then [''-W''] else []))
           in run_awaited sys ''yarn'' args cwd
                (new_progress sys uninstall_op (join pkgs '', '') ''Uninstalling with Yarn...'')
                ''Uninstallation complete''))"

definition yarn_update :: "system \<Rightarrow> string list \<Rightarrow> string \<Rightarrow> event list \<times> (error + unit)" where
  "yarn_update sys pkgs cwd =
     (case validate_update pkgs of
        Inl e \<Rightarrow> ([], Inl e)
      | Inr u \<Rightarrow>
          run_awaited sys ''yarn'' ([''upgrade''] @ pkgs) cwd
            (new_progress sys update_op (joined_or_all pkgs) ''Updating with Yarn...'')
            ''Update complete'')"

section \<open>The pnpm adapter\<close>

definition pnpm_install :: "system \<Rightarrow> string list \<Rightarrow> string \<Rightarrow> InstallOptions option
    \<Rightarrow> event list \<times> (error + unit)" where
  "pnpm_install sys pkgs cwd options =
     (case validate_install sys pkgs options of
        Inl e \<Rightarrow> ([], Inl e)
      | Inr u \<Rightarrow>
          (let args = [''add''] @ pkgs
                 @ (if opt_flag dev options then [''--save-dev''] else [])
                 @ (if opt_flag global options then [''-g''] else [])
                 @ (case opt_text registry_url options of None \<Rightarrow> []
                    | Some r \<Rightarrow> [''--registry'', r])
           in run_streamed sys 10 ''pnpm'' args cwd
                (new_progress sys install_op (join pkgs '', '') ''Installing with pnpm...'')
                ''Installation complete''))"

definition pnpm_uninstall :: "system \<Rightarrow> string list \<Rightarrow> string \<Rightarrow> UninstallOptions option
    \<Rightarrow> event list \<times> (error + unit)" where
  "pnpm_uninstall sys pkgs cwd options =
     (case validatePackageNames pkgs of
        Inl e \<Rightarrow> ([], Inl e)
      | Inr u \<Rightarrow>
          (let args = [''remove''] @ pkgs
                 @ (if opt_flag un_global options then [''-g''] else [])
           in run_awaited sys ''pnpm'' args cwd
                (new_progress sys uninstall_op (join pkgs '', '') ''Uninstalling with pnpm...'')
                ''Uninstallation complete''))"

definition pnpm_update :: "system \<Rightarrow> string list \<Rightarrow> string \<Rightarrow> event list \<times> (error + unit)" where
  "pnpm_update sys pkgs cwd =
     (case validate_update pkgs of
        Inl e \<Rightarrow> ([], Inl e)
      | Inr u \<Rightarrow>
          run_awaited sys ''pnpm'' ([''update''] @ pkgs) cwd
            (new_progress sys update_op (joined_or_all pkgs) ''Updating with pnpm...'')
            ''Update complete'')"

section \<open>The bun adapter (adapters/bun.ts)\<close>

text \<open>The handler of the standard output advances the progress by 20.\<close>

definition bun_install :: "system \<Rightarrow> string list \<Rightarrow> string \<Rightarrow> InstallOptions option
    \<Rightarrow> event list \<times> (error + unit)" where
  "bun_install sys pkgs cwd options =
     (case validate_install sys pkgs options of
        Inl e \<Rightarrow> ([], Inl e)
      | Inr u \<Rightarrow>
          (let args = [''add''] @ pkgs
                 @ (if opt_flag dev options then [''--dev''] else [])
                 @ (if opt_flag global options then [''-g''] else [])
           in run_streamed sys 20 ''bun'' args cwd
                (new_progress sys install_op (join pkgs '', '') ''Installing with Bun...'')
                ''Installation complete''))"

definition bun_uninstall :: "system \<Rightarrow> string list \<Rightarrow> string \<Rightarrow> UninstallOptions option
    \<Rightarrow> event list \<times> (error + unit)" where
  "bun_uninstall sys pkgs cwd options =
     (case validatePackageNames pkgs of
        Inl e \<Rightarrow> ([], Inl e)
      | Inr u \<Rightarrow>
          (let args = [''remove''] @ pkgs
                 @ (if opt_flag un_global options then [''-g''] else [])
           in run_awaited sys ''bun'' args cwd
                (new_progress sys uninstall_op (join pkgs '', '') ''Uninstalling with Bun...'')
                ''Uninstallation complete''))"

definition bun_update :: "system \<Rightarrow> string list \<Rightarrow> string \<Rightarrow> event list \<times> (error + unit)" where
  "bun_update sys pkgs cwd =
     (case validate_update pkgs of
        Inl e \<Rightarrow> ([], Inl e)
      | Inr u \<Rightarrow>
          run_awaited sys ''bun'' ([''update''] @ pkgs) cwd
            (new_progress sys update_op (joined_or_all pkgs) ''Updating with Bun...'')
            ''Update complete'')"

section \<open>The progress protocol\<close>

text \<open>The objects that the sink observes, in order.\<close>

fun observed :: "event list \<Rightarrow> OperationProgress list" where
  "observed [] = []"
| "observed (Progress p # evs) = p # observed evs"
| "observed (Spawn f a c # evs) = observed evs"

text \<open>The processes spawned, in order.\<close>

fun spawned :: "event list \<Rightarrow> (string \<times> string list \<times> string) list" where
  "spawned [] = []"
| "spawned (Progress p # evs) = spawned evs"
| "spawned (Spawn f a c # evs) = (f, a, c) # spawned evs"

text \<open>
  The observed progress values never decrease, and the last observed value is 100 if and
  only if the last observed status is \<^verbatim>\<open>completed\<close>.
\<close>

definition progress_protocol :: "event list \<Rightarrow> bool" where
  "progress_protocol evs \<longleftrightarrow>
     sorted (map progress (observed evs))
     \<and> (observed evs \<noteq> [] \<longrightarrow>
          (progress (last (observed evs)) = 100 \<longleftrightarrow> status (last (observed evs)) = completed))"

section \<open>Hosts of the examples\<close>

text \<open>A host without network, and a registry that knows one package.\<close>

definition offline_host :: host where
  "offline_host =
     \<lparr>JSON_parse = (\<lambda>s. None), ToString = (\<lambda>v. []), index_below = (\<lambda>i v. False),
      fetch = (\<lambda>u. NetworkError), fetch_post = (\<lambda>u b. NetworkError)\<rparr>"

definition registry_host :: host where
  "registry_host =
     \<lparr>JSON_parse = (\<lambda>s. if s = ''{\"dist-tags\":{\"latest\":\"1.3.0\"}}''
                         then Some (JObj [(''dist-tags'', JObj [(''latest'', JStr ''1.3.0'')])])
                         else None),
      ToString = (\<lambda>v. []),
      index_below = (\<lambda>i v. False),
      fetch = (\<lambda>u. if u = ''https://registry.npmjs.org/left-pad''
                     then Response True (Some ''{\"dist-tags\":{\"latest\":\"1.3.0\"}}'')
                     else if u = ''https://registry.npmjs.org/gone'' then Response False None
                     else NetworkError),
      fetch_post = (\<lambda>u b. NetworkError)\<rparr>"

text \<open>
  Lock files of the examples, each with the value that \<^verbatim>\<open>JSON.parse\<close> gives for it (of
  a key written twice, the last value stays), and a yarn lock file with two entries of
  one name.
\<close>

definition named_lock_text :: string where
  "named_lock_text =
     ''{\"name\":\"app\",\"version\":\"1.2.0\",\"packages\":{\"\":{\"name\":\"app\"},\"node_modules/a\":{\"version\":\"1.0.0\"}}}''"

definition named_lock :: json where
  "named_lock =
     JObj [(''name'', JStr ''app''), (''version'', JStr ''1.2.0''),
           (''packages'', JObj [([], JObj [(''name'', JStr ''app'')]),
                                (''node_modules/a'', JObj [(''version'', JStr ''1.0.0'')])])]"

definition workspace_lock_text :: string where
  "workspace_lock_text =
     ''{\"packages\":{\"packages/app/node_modules/left-pad\":{\"version\":\"1.3.0\"}}}''"

definition workspace_lock :: json where
  "workspace_lock =
     JObj [(''packages'',
            JObj [(''packages/app/node_modules/left-pad'', JObj [(''version'', JStr ''1.3.0'')])])]"

definition nested_first_text :: string where
  "nested_first_text =
     ''{\"packages\":{\"node_modules/a\":{\"version\":\"1.0.0\"},\"node_modules/a/node_modules/b\":{\"version\":\"2.0.0\"},\"node_modules/b\":{\"version\":\"1.0.0\"}}}''"

definition nested_first_lock :: json where
  "nested_first_lock =
     JObj [(''packages'',
            JObj [(''node_modules/a'', JObj [(''version'', JStr ''1.0.0'')]),
                  (''node_modules/a/node_modules/b'', JObj [(''version'', JStr ''2.0.0'')]),
                  (''node_modules/b'', JObj [(''version'', JStr ''1.0.0'')])])]"

definition duplicate_key_text :: string where
  "duplicate_key_text =
     ''{\"packages\":{\"node_modules/b\":{\"version\":\"2.0.0\"},\"node_modules/b\":{\"version\":\"1.0.0\"}}}''"

definition duplicate_key_lock :: json where
  "duplicate_key_lock =
     JObj [(''packages'', JObj [(''node_modules/b'', JObj [(''version'', JStr ''1.0.0'')])])]"

definition lock_host :: host where
  "lock_host =
     \<lparr>JSON_parse = map_of [(named_lock_text, named_lock), (workspace_lock_text, workspace_lock),
                           (nested_first_text, nested_first_lock),
                           (duplicate_key_text, duplicate_key_lock)],
      ToString = (\<lambda>v. []), index_below = (\<lambda>i v. False),
      fetch = (\<lambda>u. NetworkError), fetch_post = (\<lambda>u b. NetworkError)\<rparr>"









text \<open>
  A lock file of a project \<^verbatim>\<open>app\<close> that depends on \<^verbatim>\<open>a\<close>, which depends on \<^verbatim>\<open>b\<close>;
  npm has hoisted \<^verbatim>\<open>b\<close> to the top of \<^verbatim>\<open>node_modules\<close>. With it, a lock file with an
  entry \<^verbatim>\<open>null\<close>.
\<close>

definition hoisted_lock_text :: string where
  "hoisted_lock_text =
     ''{\"name\":\"app\",\"version\":\"1.2.0\",\"packages\":{''
     @ ''\"\":{\"name\":\"app\",\"version\":\"1.2.0\",\"dependencies\":{\"a\":\"^1.0.0\"}},''
     @ ''\"node_modules/a\":{\"version\":\"1.0.0\",\"dependencies\":{\"b\":\"^2.0.0\"}},''
     @ ''\"node_modules/b\":{\"version\":\"2.0.0\"}}}''"

definition hoisted_lock :: json where
  "hoisted_lock =
     JObj [(''name'', JStr ''app''), (''version'', JStr ''1.2.0''),
           (''packages'',
            JObj [([], JObj [(''name'', JStr ''app''), (''version'', JStr ''1.2.0''),
                             (''dependencies'', JObj [(''a'', JStr ''^1.0.0'')])]),
                  (''node_modules/a'',
                   JObj [(''version'', JStr ''1.0.0''),
                         (''dependencies'', JObj [(''b'', JStr ''^2.0.0'')])]),
                  (''node_modules/b'', JObj [(''version'', JStr ''2.0.0'')])])]"

definition null_entry_text :: string where
  "null_entry_text = ''{\"name\":\"app\",\"packages\":{\"node_modules/a\":null}}''"

definition null_entry_lock :: json where
  "null_entry_lock =
     JObj [(''name'', JStr ''app''), (''packages'', JObj [(''node_modules/a'', JNull)])]"

text \<open>A lock file of the older format, and a pnpm lock file.\<close>

definition flat_lock_text :: string where
  "flat_lock_text = ''{\"dependencies\":{\"a\":{\"version\":\"1.0.0\"},\"b\":{}}}''"

definition flat_lock :: json where
  "flat_lock =
     JObj [(''dependencies'', JObj [(''a'', JObj [(''version'', JStr ''1.0.0'')]), (''b'', JObj [])])]"

definition pnpm_sample :: string where
  "pnpm_sample =
     ''lockfileVersion: 5.4'' @ [CHR 0x0A] @ ''packages:'' @ [CHR 0x0A]
     @ ''  /lodash@4.17.21:'' @ [CHR 0x0A] @ ''  /lodash@3.10.1:'' @ [CHR 0x0A]"

definition hoisted_host :: host where
  "hoisted_host =
     offline_host\<lparr>JSON_parse := map_of
       [(hoisted_lock_text, hoisted_lock), (null_entry_text, null_entry_lock),
        (flat_lock_text, flat_lock)]\<rparr>"

definition yarn_sample :: string where
  "yarn_sample =
     ''lodash@^4.17.0:'' @ [CHR 0x0A] @ ''  version \"4.17.21\"'' @ [CHR 0x0A, CHR 0x0A]
     @ ''lodash@^3.0.0:'' @ [CHR 0x0A] @ ''  version \"3.10.1\"'' @ [CHR 0x0A]"

text \<open>
  A system whose process for \<^verbatim>\<open>add left-pad\<close> writes three chunks and succeeds, and
  whose other processes write one chunk and fail.
\<close>

definition demo_system :: system where
  "demo_system =
     \<lparr>URL_protocol = (\<lambda>u. if u = ''https://registry.npmmirror.com'' then Some ''https:'' else None),
      randomUUID = ''op-1'', now_started = 1000, now_completed = 2000,
      execa = (\<lambda>file args cwd.
                 if args = [''add'', ''left-pad'']
                 then \<lparr>chunks = [Stdout ''resolving'', Stderr ''warn'', Stdout ''done''],
                       exit_ok = True, exit_error = Error []\<rparr>
                 else \<lparr>chunks = [Stdout ''resolving''], exit_ok = False,
                       exit_error = Error ''Command failed''\<rparr>)\<rparr>"

section \<open>Properties\<close>

subsection \<open>Range operators of a declared version\<close>

text \<open>
  Claim C7: a leading run of range operators is to be stripped whole, so that
  \<^verbatim>\<open>>=1.2.3\<close> becomes \<^verbatim>\<open>1.2.3\<close>. The code removes one code unit: the pattern
  \<^verbatim>\<open>/^[\^~>=<]/\<close> has no repetition, and the version extracted from \<^verbatim>\<open>>=1.2.3\<close>
  is \<^verbatim>\<open>=1.2.3\<close>.
\<close>

theorem extractPackages_two_char_operator:
  "extractPackages (Some (JObj [(''semver'', JStr ''>=1.2.3'')])) (Some (JObj []))
     = Inr [\<lparr>pkg_name = ''semver'', pkg_version = ''=1.2.3'', isDev = False\<rparr>]"
  by code_simp

subsection \<open>Classification of the input\<close>

lemma match_site_None:
  "match_site es t = None \<longleftrightarrow> (\<forall>(domain, reg) \<in> set es. re_match False (urlPattern domain) t = None)"
  by (induction es) (auto split: option.splits)

lemma match_site_Some:
  "\<exists>(domain, reg) \<in> set es. re_match False (urlPattern domain) t \<noteq> None
   \<Longrightarrow> \<exists>r. match_site es t = Some r \<and> input_type r = npm_site_url"
proof (induction es)
  case Nil
  then show ?case by simp
next
  case (Cons a es)
  obtain d r where a: "a = (d, r)" by (cases a)
  show ?case
  proof (cases "re_match False (urlPattern d) t")
    case None
    with Cons.prems a have "\<exists>(domain, reg) \<in> set es. re_match False (urlPattern domain) t \<noteq> None"
      by auto
    from Cons.IH [OF this] None a show ?thesis by simp
  next
    case (Some g)
    with a show ?thesis by simp
  qed
qed

text \<open>
  The order of the tests: an input that one of the patterns of the code matches is a
  site URL; an input that starts with \<^verbatim>\<open>http://\<close> or \<^verbatim>\<open>https://\<close> (after trimming)
  and that none of them matches is a git URL. The npmjs.com URL of lodash is a site URL
  with the npm registry.
\<close>

lemma parseInputType_order:
  "((startsWith (trim input) ''http://'' \<or> startsWith (trim input) ''https://'')
        \<and> (\<forall>(domain, reg) \<in> set NPM_SITE_REGISTRY_MAP.
               re_match False (urlPattern domain) (trim input) = None)
       \<longrightarrow> parseInputType input = \<lparr>input_type = git_url, input_value = trim input, registry = None\<rparr>)
   \<and> ((\<exists>(domain, reg) \<in> set NPM_SITE_REGISTRY_MAP.
               re_match False (urlPattern domain) (trim input) \<noteq> None)
       \<longrightarrow> input_type (parseInputType input) = npm_site_url)"
proof (intro conjI impI)
  assume "(startsWith (trim input) ''http://'' \<or> startsWith (trim input) ''https://'')
        \<and> (\<forall>(domain, reg) \<in> set NPM_SITE_REGISTRY_MAP.
               re_match False (urlPattern domain) (trim input) = None)"
  then have "match_site NPM_SITE_REGISTRY_MAP (trim input) = None"
    and "startsWith (trim input) ''http://'' \<or> startsWith (trim input) ''https://''"
    by (simp_all add: match_site_None)
  then show "parseInputType input = \<lparr>input_type = git_url, input_value = trim input, registry = None\<rparr>"
    by (auto simp: parseInputType_def Let_def)
next
  assume "\<exists>(domain, reg) \<in> set NPM_SITE_REGISTRY_MAP.
               re_match False (urlPattern domain) (trim input) \<noteq> None"
  from match_site_Some [OF this] show "input_type (parseInputType input) = npm_site_url"
    by (auto simp: parseInputType_def Let_def)
qed

lemma parseInputType_npmjs_lodash:
  "parseInputType ''https://www.npmjs.com/package/lodash''
     = \<lparr>input_type = npm_site_url, input_value = ''lodash'',
        registry = Some ''https://registry.npmjs.org''\<rparr>
   \<and> known_site_url ''https://www.npmjs.com/package/lodash''
   \<and> parseInputType ''  https://github.com/owner/repo ''
     = \<lparr>input_type = git_url, input_value = ''https://github.com/owner/repo'', registry = None\<rparr>
   \<and> \<not> known_site_url ''https://github.com/owner/repo''"
  by code_simp

text \<open>
  Claim C8: known site URLs are classified before generic URLs, and every HTTP(S) input
  that matches no known site pattern is a git URL. The code fails the second part. It
  builds the pattern of a domain with \<^verbatim>\<open>domain.replace('.', '\\.')\<close>, which escapes the
  first dot only; the other dot of \<^verbatim>\<open>www.npmjs.com\<close> stays a wildcard. The input
  \<^verbatim>\<open>https://www.npmjsXcom/package/lodash\<close> is an HTTPS URL of no known site, and it is
  classified as a site URL of the npm registry, not as a git URL.
\<close>

theorem parseInputType_unescaped_dot:
  "parseInputType ''https://www.npmjsXcom/package/lodash''
     = \<lparr>input_type = npm_site_url, input_value = ''lodash'',
        registry = Some ''https://registry.npmjs.org''\<rparr>
   \<and> startsWith ''https://www.npmjsXcom/package/lodash'' ''https://''
   \<and> \<not> known_site_url ''https://www.npmjsXcom/package/lodash''
   \<and> parseInputType ''https://www.npmjsXcom/package/lodash''
     \<noteq> \<lparr>input_type = git_url, input_value = ''https://www.npmjsXcom/package/lodash'',
        registry = None\<rparr>"
  by code_simp

subsection \<open>Failure isolation of the update check\<close>

lemma promise_all_map_Inr: "promise_all (map (\<lambda>x. Inr (f x)) xs) = Inr (map f xs)"
  by (induction xs) auto

lemma check_update_Inr: "check_update h pkg = Inr (update_of h pkg)"
  by (simp add: check_update_def update_of_def split: sum.split)

lemma checkUpdates_map: "checkUpdates h pkgs = Inr (map (update_of h) pkgs)"
  unfolding checkUpdates_def by (induction pkgs) (simp_all add: check_update_Inr)

lemma update_of_failed:
  "fetch h (NPM_REGISTRY @ ''/'' @ fst pkg) = NetworkError
   \<or> (\<exists>b. fetch h (NPM_REGISTRY @ ''/'' @ fst pkg) = Response False b)
   \<Longrightarrow> update_of h pkg = no_update pkg"
  by (auto simp: update_of_def lookup_update_def)

text \<open>
  Claim C9: \<^verbatim>\<open>checkUpdates\<close> never rejects and returns one entry per package. The
  entry of a package is the one it gets when it is checked alone, so no other package
  affects it. When the fetch of the package throws or the response is not ok, the entry
  has \<^verbatim>\<open>hasUpdate = false\<close> and the declared version as \<^verbatim>\<open>latestVersion\<close>.
\<close>

theorem checkUpdates_failure_isolated:
  "\<exists>rs. checkUpdates h pkgs = Inr rs \<and> length rs = length pkgs
     \<and> (\<forall>i < length pkgs.
          checkUpdates h [pkgs ! i] = Inr [rs ! i]
          \<and> (fetch h (NPM_REGISTRY @ ''/'' @ fst (pkgs ! i)) = NetworkError
             \<or> (\<exists>b. fetch h (NPM_REGISTRY @ ''/'' @ fst (pkgs ! i)) = Response False b)
             \<longrightarrow> rs ! i = \<lparr>upd_name = fst (pkgs ! i), currentVersion = snd (pkgs ! i),
                            latestVersion = JStr (snd (pkgs ! i)), hasUpdate = False\<rparr>))"
proof (intro exI conjI allI impI)
  show "checkUpdates h pkgs = Inr (map (update_of h) pkgs)" by (rule checkUpdates_map)
  show "length (map (update_of h) pkgs) = length pkgs" by simp
next
  fix i assume "i < length pkgs"
  then show "checkUpdates h [pkgs ! i] = Inr [map (update_of h) pkgs ! i]"
    by (simp add: checkUpdates_map)
next
  fix i
  assume i: "i < length pkgs"
    and f: "fetch h (NPM_REGISTRY @ ''/'' @ fst (pkgs ! i)) = NetworkError
       \<or> (\<exists>b. fetch h (NPM_REGISTRY @ ''/'' @ fst (pkgs ! i)) = Response False b)"
  from update_of_failed [OF f] i
  show "map (update_of h) pkgs ! i = \<lparr>upd_name = fst (pkgs ! i), currentVersion = snd (pkgs ! i),
                            latestVersion = JStr (snd (pkgs ! i)), hasUpdate = False\<rparr>"
    by (simp add: no_update_def)
qed

theorem checkUpdates_failure_isolated_witness:
  "fetch registry_host (NPM_REGISTRY @ ''/'' @ ''nope'') = NetworkError
   \<and> fetch registry_host (NPM_REGISTRY @ ''/'' @ ''gone'') = Response False None
   \<and> (\<exists>rs. checkUpdates registry_host
               [(''nope'', ''1.0.0''), (''left-pad'', ''1.0.0''), (''gone'', ''2.0.0'')] = Inr rs
         \<and> length rs = 3
         \<and> rs ! 0 = \<lparr>upd_name = ''nope'', currentVersion = ''1.0.0'',
                      latestVersion = JStr ''1.0.0'', hasUpdate = False\<rparr>
         \<and> rs ! 1 = \<lparr>upd_name = ''left-pad'', currentVersion = ''1.0.0'',
                      latestVersion = JStr ''1.3.0'', hasUpdate = True\<rparr>
         \<and> rs ! 2 = \<lparr>upd_name = ''gone'', currentVersion = ''2.0.0'',
                      latestVersion = JStr ''2.0.0'', hasUpdate = False\<rparr>)"
proof -
  let ?ps = "[(''nope'', ''1.0.0''), (''left-pad'', ''1.0.0''), (''gone'', ''2.0.0'')]"
  have f0: "fetch registry_host (NPM_REGISTRY @ ''/'' @ ''nope'') = NetworkError"
    by (simp add: registry_host_def NPM_REGISTRY_def)
  have f2: "fetch registry_host (NPM_REGISTRY @ ''/'' @ ''gone'') = Response False None"
    by (simp add: registry_host_def NPM_REGISTRY_def)
  obtain rs where rs: "checkUpdates registry_host ?ps = Inr rs" and len: "length rs = length ?ps"
    and each: "\<forall>i<length ?ps. checkUpdates registry_host [?ps ! i] = Inr [rs ! i]
          \<and> (fetch registry_host (NPM_REGISTRY @ ''/'' @ fst (?ps ! i)) = NetworkError
             \<or> (\<exists>b. fetch registry_host (NPM_REGISTRY @ ''/'' @ fst (?ps ! i)) = Response False b)
             \<longrightarrow> rs ! i = \<lparr>upd_name = fst (?ps ! i), currentVersion = snd (?ps ! i),
                            latestVersion = JStr (snd (?ps ! i)), hasUpdate = False\<rparr>)"
    using checkUpdates_failure_isolated [of registry_host ?ps] by blast
  have r0: "rs ! 0 = \<lparr>upd_name = ''nope'', currentVersion = ''1.0.0'',
                      latestVersion = JStr ''1.0.0'', hasUpdate = False\<rparr>"
    using each [rule_format, of 0] f0 by simp
  have r2: "rs ! 2 = \<lparr>upd_name = ''gone'', currentVersion = ''2.0.0'',
                      latestVersion = JStr ''2.0.0'', hasUpdate = False\<rparr>"
    using each [rule_format, of 2] f2 by simp
  have "checkUpdates registry_host [(''left-pad'', ''1.0.0'')] = Inr [rs ! 1]"
    using each [rule_format, of 1] by simp
  moreover have "checkUpdates registry_host [(''left-pad'', ''1.0.0'')]
     = Inr [\<lparr>upd_name = ''left-pad'', currentVersion = ''1.0.0'',
              latestVersion = JStr ''1.3.0'', hasUpdate = True\<rparr>]"
    by (simp add: checkUpdates_def check_update_def lookup_update_def registry_host_def
        NPM_REGISTRY_def response_json_def then_do_def js_or_else_def to_str_def)
  ultimately have r1: "rs ! 1 = \<lparr>upd_name = ''left-pad'', currentVersion = ''1.0.0'',
                      latestVersion = JStr ''1.3.0'', hasUpdate = True\<rparr>"
    by simp
  from rs len r0 r1 r2 f0 f2 show ?thesis by simp
qed

subsection \<open>A repository without a manifest\<close>

text \<open>
  Claim C3: when the fetcher returns \<^verbatim>\<open>null\<close> for \<^verbatim>\<open>package.json\<close>, the repository
  path throws (the call rejects with an error) and returns no result. When the URL is
  not a repository URL, the call rejects before any file is fetched.
\<close>

theorem analyzeGitRepo_without_manifest_throws:
  "(parseGitUrl repoUrl = Inr info
      \<and> fetchRepoFile h (if present b then info\<lparr>branch := b\<rparr> else info) ''package.json'' = Inr None
     \<longrightarrow> analyzeGitRepo h repoUrl b = Some (Inl (Error ''package.json not found in repository'')))
   \<and> (parseGitUrl repoUrl = Inl e \<longrightarrow> analyzeGitRepo h repoUrl b = Some (Inl e))"
  by (simp add: analyzeGitRepo_def repo_manifest_def then_do_def Let_def)

theorem analyzeGitRepo_without_manifest_throws_witness:
  "parseGitUrl ''https://github.com/owner/repo''
     = Inr \<lparr>platform = github, owner = ''owner'', repo = ''repo'', branch = None\<rparr>
   \<and> fetchRepoFile offline_host \<lparr>platform = github, owner = ''owner'', repo = ''repo'', branch = None\<rparr>
        ''package.json'' = Inr None
   \<and> analyzeGitRepo offline_host ''https://github.com/owner/repo'' None
     = Some (Inl (Error ''package.json not found in repository''))
   \<and> parseGitUrl ''ftp://example.org/x'' = Inl (Error ''Invalid Git URL: ftp://example.org/x'')
   \<and> analyzeGitRepo offline_host ''ftp://example.org/x'' None
     = Some (Inl (Error ''Invalid Git URL: ftp://example.org/x''))"
proof -
  have p: "parseGitUrl ''https://github.com/owner/repo''
     = Inr \<lparr>platform = github, owner = ''owner'', repo = ''repo'', branch = None\<rparr>"
    by code_simp
  have f: "fetchRepoFile offline_host
       \<lparr>platform = github, owner = ''owner'', repo = ''repo'', branch = None\<rparr> ''package.json'' = Inr None"
    by (simp add: fetchRepoFile_def fetchGitHubFile_def fetch_text_def offline_host_def)
  have q: "parseGitUrl ''ftp://example.org/x'' = Inl (Error ''Invalid Git URL: ftp://example.org/x'')"
    by code_simp
  show ?thesis
    using analyzeGitRepo_without_manifest_throws
            [of "''https://github.com/owner/repo''"
                "\<lparr>platform = github, owner = ''owner'', repo = ''repo'', branch = None\<rparr>"
                offline_host None]
          analyzeGitRepo_without_manifest_throws
            [of "''ftp://example.org/x''" _ offline_host None "Error ''Invalid Git URL: ftp://example.org/x''"]
          p f q
    by (simp add: present_def)
qed

subsection \<open>The matcher consumes input\<close>

lemma iter_greedy_le:
  assumes "\<And>s t. t \<in> set (f s) \<Longrightarrow> length (rest t) \<le> length (rest s)"
  shows "t \<in> set (iter_greedy f n s) \<Longrightarrow> length (rest t) \<le> length (rest s)"
proof (induction n arbitrary: s t)
  case 0
  then show ?case by simp
next
  case (Suc n)
  then show ?case by (fastforce dest: assms)
qed

lemma iter_lazy_le:
  assumes "\<And>s t. t \<in> set (f s) \<Longrightarrow> length (rest t) \<le> length (rest s)"
  shows "t \<in> set (iter_lazy f n s) \<Longrightarrow> length (rest t) \<le> length (rest s)"
proof (induction n arbitrary: s t)
  case 0
  then show ?case by simp
next
  case (Suc n)
  then show ?case by (fastforce dest: assms)
qed

lemma rmatch_le: "t \<in> set (rmatch m r s) \<Longrightarrow> length (rest t) \<le> length (rest s)"
proof (induction r arbitrary: s t)
  case (Sym P)
  then show ?case by (cases "rest s") (auto split: if_splits)
next
  case (Seq a b)
  then show ?case by (fastforce)
next
  case (Star r)
  then show ?case using iter_greedy_le [of "rmatch m r"] by auto
next
  case (LazyStar r)
  then show ?case using iter_lazy_le [of "rmatch m r"] by auto
next
  case (Grp n r)
  then show ?case by auto
qed (auto split: if_splits)

lemma rmatch_consumes:
  "consumes r \<Longrightarrow> t \<in> set (rmatch m r s) \<Longrightarrow> length (rest t) < length (rest s)"
proof (induction r arbitrary: s t)
  case (Sym P)
  then show ?case by (cases "rest s") (auto split: if_splits)
next
  case (Seq a b)
  from Seq.prems(2) obtain u where u: "u \<in> set (rmatch m a s)" and t: "t \<in> set (rmatch m b u)"
    by auto
  show ?case
  proof (cases "consumes a")
    case True
    with Seq.IH(1) u have "length (rest u) < length (rest s)" by simp
    with rmatch_le [OF t] show ?thesis by simp
  next
    case False
    with Seq.prems(1) have "consumes b" by simp
    with Seq.IH(2) t have "length (rest t) < length (rest u)" by simp
    with rmatch_le [OF u] show ?thesis by simp
  qed
next
  case (Alt a b)
  then show ?case by auto
next
  case (Grp n r)
  then show ?case by auto
qed simp_all

lemma exec_loop_returns:
  "consumes r \<Longrightarrow> \<exists>ms. exec_loop m r k pre s = Some ms"
proof (induction m r k pre s rule: exec_loop.induct)
  case (1 m r k pre)
  show ?case
  proof (cases "rmatch m r \<lparr>consumed = pre, rest = [], caps = []\<rparr>")
    case Nil
    then show ?thesis by simp
  next
    case (Cons t ts)
    then have "t \<in> set (rmatch m r \<lparr>consumed = pre, rest = [], caps = []\<rparr>)" by simp
    from rmatch_consumes [OF "1.prems" this] show ?thesis by simp
  qed
next
  case (2 m r k pre c cs)
  then show ?case by simp
next
  case (3 m r pre c cs)
  show ?case
  proof (cases "rmatch m r \<lparr>consumed = pre, rest = c # cs, caps = []\<rparr>")
    case Nil
    with 3 show ?thesis by simp
  next
    case (Cons t ts)
    then have "t \<in> set (rmatch m r \<lparr>consumed = pre, rest = c # cs, caps = []\<rparr>)" by simp
    from rmatch_consumes [OF "3.prems" this] have lt: "length (rest t) < Suc (length cs)" by simp
    then have n: "length (c # cs) - length (rest t) \<noteq> 0" by simp
    from "3.IH"(2) [OF Cons refl n "3.prems"] obtain ms where
      "exec_loop m r (length (c # cs) - length (rest t) - 1) (c # pre) cs = Some ms" by blast
    with Cons n show ?thesis by (simp add: Let_def)
  qed
qed

lemma consumes_yarn_entry: "consumes yarn_entry"
  by (simp add: yarn_entry_def seqs_def Plus_def)

lemma yarn_entries_returns: "\<exists>es. yarn_entries content = Some es"
  using exec_loop_returns [OF consumes_yarn_entry, of True 0 "[]" content]
  by (auto simp: yarn_entries_def)

subsection \<open>Splitting a path\<close>

lemma split_from_nonempty: "split_from cur sep s \<noteq> []"
  by (induction cur sep s rule: split_from.induct) auto

lemma split_from_single: "split_from cur sep s = [p] \<Longrightarrow> p = rev cur @ s"
  by (induction cur sep s rule: split_from.induct)
     (auto simp: split_from_nonempty split: if_splits)

lemma split_from_single_iff:
  "(\<exists>p. split_from cur sep s = [p]) \<longleftrightarrow> length (split_from cur sep s) = 1"
  by (cases "split_from cur sep s") (auto simp: length_Suc_conv)

lemma split_prefixed:
  assumes "sep \<noteq> []"
  shows "split (sep @ r) sep = [] # split r sep"
proof -
  from assms obtain c cs where sep: "sep = c # cs" by (cases sep) auto
  then show ?thesis by (simp add: split_def)
qed

lemma str_replace_prefixed:
  assumes "sep \<noteq> []"
  shows "str_replace (sep @ r) sep [] = r"
proof -
  from assms obtain c cs where sep: "sep = c # cs" by (cases sep) auto
  then show ?thesis by simp
qed

lemma kept_path:
  assumes "startsWith path ''node_modules/''"
  shows "(case split (str_replace path ''node_modules/'' []) ''node_modules/'' of
            [part] \<Rightarrow> f part | _ \<Rightarrow> g)
         = (if segment_count path = 1 then f (drop (length ''node_modules/'') path) else g)"
proof -
  from assms obtain r where path: "path = ''node_modules/'' @ r"
    by (auto simp: startsWith_def prefix_def)
  have rep: "str_replace path ''node_modules/'' [] = r"
    unfolding path by (rule str_replace_prefixed) simp
  have sp: "split path ''node_modules/'' = [] # split r ''node_modules/''"
    unfolding path by (rule split_prefixed) simp
  have dr: "drop (length ''node_modules/'') path = r"
    unfolding path by simp
  have cnt: "segment_count path = length (split r ''node_modules/'')"
    by (simp add: segment_count_def sp)
  show ?thesis
  proof (cases "split r ''node_modules/''")
    case Nil
    then show ?thesis using split_from_nonempty [of "[]" "''node_modules/''" r]
      by (simp add: split_def)
  next
    case (Cons p ps)
    show ?thesis
    proof (cases ps)
      case Nil
      with Cons have "split_from [] ''node_modules/'' r = [p]" by (simp add: split_def)
      from split_from_single [OF this] have "p = r" by simp
      with Cons Nil rep cnt dr show ?thesis by simp
    next
      case (Cons q qs)
      with \<open>split r ''node_modules/'' = p # ps\<close> rep cnt show ?thesis by simp
    qed
  qed
qed

lemma startsWith_nonempty: "startsWith path ''node_modules/'' \<Longrightarrow> path \<noteq> []"
  by (auto simp: startsWith_def)

subsection \<open>The loops of the npm parser\<close>

lemma get_prop_non_null:
  "info \<noteq> JNull \<Longrightarrow> get_prop (Some info) k = Inr (opt_prop (Some info) k)"
  by (cases info) simp_all

lemma get_prop_Inr:
  "get_prop (Some info) k = Inr v \<Longrightarrow> v = opt_prop (Some info) k"
  by (cases info) simp_all

lemma npm_packages_loop_Inr:
  "npm_packages_loop es cs = Inr r \<Longrightarrow> r = cs @ map npm_child (filter top_level es)"
proof (induction es arbitrary: cs)
  case Nil
  then show ?case by simp
next
  case (Cons e es)
  obtain path info where e: "e = (path, info)" by (cases e)
  show ?case
  proof (cases "startsWith path ''node_modules/''")
    case False
    with Cons e show ?thesis by (simp add: top_level_def)
  next
    case True
    note sw = this
    show ?thesis
    proof (cases "segment_count path = 1")
      case False
      with Cons e sw show ?thesis
        by (simp add: top_level_def kept_path startsWith_nonempty del: length_0_conv)
    next
      case True
      with Cons.prems e sw obtain v where v: "get_prop (Some info) ''version'' = Inr v"
        and rec: "npm_packages_loop es
                    (cs @ [Node (JStr (drop (length ''node_modules/'') path))
                             (js_or_else v (JStr ''0.0.0'')) []]) = Inr r"
        by (auto simp: kept_path startsWith_nonempty split: sum.splits)
      from get_prop_Inr [OF v] have "v = opt_prop (Some info) ''version''" .
      with Cons.IH [OF rec] e sw True show ?thesis
        by (simp add: top_level_def npm_child_def)
    qed
  qed
qed

lemma npm_packages_loop_total:
  "\<forall>e \<in> set es. top_level e \<longrightarrow> snd e \<noteq> JNull \<Longrightarrow> \<exists>r. npm_packages_loop es cs = Inr r"
proof (induction es arbitrary: cs)
  case Nil
  then show ?case by simp
next
  case (Cons e es)
  obtain path info where e: "e = (path, info)" by (cases e)
  show ?case
  proof (cases "top_level e")
    case False
    with Cons e show ?thesis
      by (cases "startsWith path ''node_modules/''")
         (auto simp: top_level_def kept_path startsWith_nonempty)
  next
    case True
    with Cons.prems e have nn: "info \<noteq> JNull" by simp
    from True e have sw: "startsWith path ''node_modules/''" and sc: "segment_count path = 1"
      by (simp_all add: top_level_def)
    from Cons.prems have "\<forall>e \<in> set es. top_level e \<longrightarrow> snd e \<noteq> JNull" by simp
    from Cons.IH [OF this] e sw sc nn show ?thesis
      by (simp add: kept_path startsWith_nonempty get_prop_non_null)
  qed
qed

lemma npm_deps_loop_Inr:
  "npm_deps_loop es cs = Inr r \<Longrightarrow> r = cs @ map npm_dep_child es"
proof (induction es arbitrary: cs)
  case Nil
  then show ?case by simp
next
  case (Cons e es)
  obtain nm info where e: "e = (nm, info)" by (cases e)
  with Cons.prems obtain v where v: "get_prop (Some info) ''version'' = Inr v"
    and rec: "npm_deps_loop es (cs @ [Node (JStr nm) (js_or_else v (JStr ''0.0.0'')) []]) = Inr r"
    by (auto split: sum.splits)
  from get_prop_Inr [OF v] Cons.IH [OF rec] e show ?case
    by (simp add: npm_dep_child_def)
qed

lemma js_or_else_obj_non_null: "js_or_else x (JObj []) \<noteq> JNull"
  by (cases x) (auto simp: js_or_else_def)

lemma object_entries_non_null: "v \<noteq> JNull \<Longrightarrow> object_entries (Some v) = Inr (entries_of v)"
  by (cases v) (simp_all add: entries_of_def)

lemma npm_lock_tree_null: "npm_lock_tree JNull = Inl TypeError"
  by (simp add: npm_lock_tree_def)

lemma npm_lock_tree_non_null:
  assumes "lock \<noteq> JNull"
  shows "npm_lock_tree lock =
     (let root_name = js_or_else (opt_prop (Some lock) ''name'') (JStr ''root'');
          root_version = js_or_else (opt_prop (Some lock) ''version'') (JStr ''0.0.0'');
          pes = entries_of (js_or_else (opt_prop (Some lock) ''packages'') (JObj []));
          des = entries_of (js_or_else (opt_prop (Some lock) ''dependencies'') (JObj []))
      in if pes \<noteq> [] then
           (case npm_packages_loop pes [] of
              Inl e \<Rightarrow> Inl e
            | Inr cs \<Rightarrow> Inr (Node root_name root_version cs))
         else if des \<noteq> [] then
           (case npm_deps_loop des [] of
              Inl e \<Rightarrow> Inl e
            | Inr cs \<Rightarrow> Inr (Node root_name root_version cs))
         else Inr (Node root_name root_version []))"
  unfolding npm_lock_tree_def
  by (simp add: get_prop_non_null [OF assms] Let_def
      object_entries_non_null [OF js_or_else_obj_non_null])

subsection \<open>The loops of the yarn and pnpm parsers\<close>

lemma push_unseen_eq:
  "push_unseen es seen cs = cs @ map entry_node (unseen_entries es seen)"
  by (induction es seen cs rule: push_unseen.induct) (simp_all add: entry_node_def)

lemma pnpm_loop_eq:
  "pnpm_loop ls inPackages seen cs = push_unseen (pnpm_entries ls inPackages) seen cs"
proof (induction ls inPackages seen cs rule: pnpm_loop.induct)
  case (1 inPackages seen cs)
  then show ?case by simp
next
  case (2 line ls inPackages seen cs)
  show ?case
  proof (cases "startsWith line ''packages:''")
    case True
    with 2 show ?thesis by simp
  next
    case nk: False
    show ?thesis
    proof (cases inPackages)
      case False
      with 2 nk show ?thesis by simp
    next
      case True
      show ?thesis
      proof (cases "re_test False top_level_key line")
        case True
        with \<open>inPackages\<close> nk show ?thesis by simp
      next
        case nt: False
        show ?thesis
        proof (cases "re_match False pnpm_entry line")
          case None
          with 2 nk nt \<open>inPackages\<close> show ?thesis by simp
        next
          case (Some g)
          obtain nm ver where e: "match_entry g = (nm, ver)" by (cases "match_entry g")
          with 2 nk nt \<open>inPackages\<close> Some show ?thesis by simp
        qed
      qed
    qed
  qed
qed

lemma unseen_entries_names:
  "fst ` set (unseen_entries es seen) = fst ` set es - seen"
  by (induction es seen rule: unseen_entries.induct) auto

lemma unseen_entries_distinct:
  "distinct (map fst (unseen_entries es seen))"
proof (induction es seen rule: unseen_entries.induct)
  case (1 seen)
  then show ?case by simp
next
  case (2 nm ver es seen)
  have "nm \<notin> fst ` set (unseen_entries es (insert nm seen))"
    by (simp add: unseen_entries_names)
  with 2 show ?case by auto
qed

lemma unseen_entries_first:
  "e \<in> set (unseen_entries es seen) \<Longrightarrow> map_of es (fst e) = Some (snd e)"
proof (induction es seen rule: unseen_entries.induct)
  case (1 seen)
  then show ?case by simp
next
  case (2 nm ver es seen)
  show ?case
  proof (cases "nm \<in> seen")
    case True
    with 2 have e: "e \<in> set (unseen_entries es seen)" by simp
    then have "fst e \<in> fst ` set es - seen" using unseen_entries_names by blast
    with True have "fst e \<noteq> nm" by auto
    with 2 True e show ?thesis by simp
  next
    case False
    show ?thesis
    proof (cases "e = (nm, ver)")
      case True
      then show ?thesis by simp
    next
      case ne: False
      with 2 False have e: "e \<in> set (unseen_entries es (insert nm seen))" by simp
      then have "fst e \<in> fst ` set es - insert nm seen" using unseen_entries_names by blast
      then have "fst e \<noteq> nm" by auto
      with 2 False e show ?thesis by simp
    qed
  qed
qed

lemma first_wins_unseen: "first_wins es (map entry_node (unseen_entries es {}))"
proof -
  have A: "map name (map entry_node (unseen_entries es {})) = map JStr (map fst (unseen_entries es {}))"
    by (simp add: entry_node_def)
  have B: "distinct (map JStr (map fst (unseen_entries es {})))"
    using unseen_entries_distinct [of es "{}"] by (simp add: distinct_map inj_on_def)
  have 1: "distinct (map name (map entry_node (unseen_entries es {})))"
    unfolding A by (rule B)
  have 2: "\<forall>c \<in> set (map entry_node (unseen_entries es {})).
             \<exists>nm ver. c = Node (JStr nm) (JStr ver) [] \<and> map_of es nm = Some ver"
    using unseen_entries_first [of _ es "{}"] by (auto simp: entry_node_def)
  have 3: "\<forall>e \<in> set es. JStr (fst e) \<in> name ` set (map entry_node (unseen_entries es {}))"
  proof
    fix e assume "e \<in> set es"
    then have "fst e \<in> fst ` set (unseen_entries es {})"
      by (simp add: unseen_entries_names)
    then obtain e' where e': "e' \<in> set (unseen_entries es {})" "fst e' = fst e" by auto
    then have "entry_node e' \<in> set (map entry_node (unseen_entries es {}))" by simp
    moreover have "JStr (fst e) = name (entry_node e')"
      using e'(2) by (simp add: entry_node_def)
    ultimately show "JStr (fst e) \<in> name ` set (map entry_node (unseen_entries es {}))"
      by (rule image_eqI [rotated])
  qed
  from 1 2 3 show ?thesis unfolding first_wins_def by blast
qed

lemma yarn_tree:
  "\<exists>es. yarn_entries content = Some es
     \<and> parseYarnLockFile content
         = Some (Node (JStr ''root'') (JStr ''0.0.0'') (map entry_node (unseen_entries es {})))"
  using yarn_entries_returns [of content]
  by (auto simp: parseYarnLockFile_def push_unseen_eq)

lemma pnpm_tree:
  "parsePnpmLockFile content
     = Node (JStr ''root'') (JStr ''0.0.0'')
         (map entry_node (unseen_entries (pnpm_entries (split content [CHR 0x0A]) False) {}))"
  by (simp add: parsePnpmLockFile_def pnpm_loop_eq push_unseen_eq)

lemma entry_node_children: "\<forall>c \<in> set (map entry_node es). children c = []"
  by (simp add: entry_node_def)

subsection \<open>Paths that become children\<close>

text \<open>
  Claim C6, as stated, fails: a path with exactly one \<^verbatim>\<open>node_modules/\<close> segment that
  does not start with it, as the packages of a workspace have, is not a child.
\<close>

theorem npm_workspace_path_not_a_child:
  "JSON_parse lock_host workspace_lock_text = Some workspace_lock
   \<and> npm_entries lock_host workspace_lock_text
       = [(''packages/app/node_modules/left-pad'', JObj [(''version'', JStr ''1.3.0'')])]
   \<and> segment_count ''packages/app/node_modules/left-pad'' = 1
   \<and> children (parseNpmLockFile lock_host workspace_lock_text) = []"
  by code_simp

text \<open>
  Claim C6, amended: when the lock file parses to an object whose \<^verbatim>\<open>packages\<close> is a
  non-empty object and no entry that qualifies is \<^verbatim>\<open>null\<close>, the children are exactly
  the entries whose path starts with \<^verbatim>\<open>node_modules/\<close> and has exactly one
  \<^verbatim>\<open>node_modules/\<close> segment, in the order of the object; an entry with no segment,
  with more than one, or with its one segment not at the start is left out.
\<close>

theorem npm_children_are_top_level_paths:
  assumes "JSON_parse h content = Some (JObj lock)"
    and "map_of lock ''packages'' = Some (JObj pes)"
    and "pes \<noteq> []"
    and "\<forall>e \<in> set pes. top_level e \<longrightarrow> snd e \<noteq> JNull"
  shows "children (parseNpmLockFile h content)
         = map npm_child
             (filter (\<lambda>e. startsWith (fst e) ''node_modules/'' \<and> segment_count (fst e) = 1) pes)"
proof -
  from npm_packages_loop_total [OF assms(4)] obtain r where r: "npm_packages_loop pes [] = Inr r"
    by blast
  from npm_packages_loop_Inr [OF r] have "r = map npm_child (filter top_level pes)" by simp
  moreover have "top_level = (\<lambda>e. startsWith (fst e) ''node_modules/'' \<and> segment_count (fst e) = 1)"
    by (simp add: top_level_def fun_eq_iff)
  ultimately show ?thesis
    using assms(1-3) r
    by (simp add: parseNpmLockFile_def npm_lock_tree_def js_or_else_def Let_def)
qed

theorem npm_children_are_top_level_paths_witness:
  "JSON_parse lock_host nested_first_text
     = Some (JObj [(''packages'',
            JObj [(''node_modules/a'', JObj [(''version'', JStr ''1.0.0'')]),
                  (''node_modules/a/node_modules/b'', JObj [(''version'', JStr ''2.0.0'')]),
                  (''node_modules/b'', JObj [(''version'', JStr ''1.0.0'')])])])
   \<and> list_all (\<lambda>e. snd e \<noteq> JNull)
        [(''node_modules/a'', JObj [(''version'', JStr ''1.0.0'')]),
         (''node_modules/a/node_modules/b'', JObj [(''version'', JStr ''2.0.0'')]),
         (''node_modules/b'', JObj [(''version'', JStr ''1.0.0'')])]
   \<and> children (parseNpmLockFile lock_host nested_first_text)
       = [Node (JStr ''a'') (JStr ''1.0.0'') [], Node (JStr ''b'') (JStr ''1.0.0'') []]"
proof -
  let ?pes = "[(''node_modules/a'', JObj [(''version'', JStr ''1.0.0'')]),
               (''node_modules/a/node_modules/b'', JObj [(''version'', JStr ''2.0.0'')]),
               (''node_modules/b'', JObj [(''version'', JStr ''1.0.0'')])]"
  have l: "JSON_parse lock_host nested_first_text = Some (JObj [(''packages'', JObj ?pes)])"
    by code_simp
  have m: "map_of [(''packages'', JObj ?pes)] ''packages'' = Some (JObj ?pes)"
    by simp
  have n: "\<forall>e \<in> set ?pes. top_level e \<longrightarrow> snd e \<noteq> JNull"
    by simp
  have r: "map npm_child
             (filter (\<lambda>e. startsWith (fst e) ''node_modules/'' \<and> segment_count (fst e) = 1) ?pes)
           = [Node (JStr ''a'') (JStr ''1.0.0'') [], Node (JStr ''b'') (JStr ''1.0.0'') []]"
    by code_simp
  from npm_children_are_top_level_paths [OF l m _ n] r l show ?thesis by simp
qed

subsection \<open>Progress of a mutating operation\<close>

lemma on_data_props:
  "on_data step cs p = (evs, q) \<Longrightarrow> progress p \<le> 90 \<Longrightarrow>
     sorted (map progress (observed evs))
     \<and> (\<forall>x \<in> set (observed evs). progress p \<le> progress x \<and> progress x \<le> 90 \<and> status x = status p)
     \<and> progress p \<le> progress q \<and> progress q \<le> 90 \<and> status q = status p
     \<and> (observed evs \<noteq> [] \<longrightarrow> last (observed evs) = q)
     \<and> (observed evs = [] \<longrightarrow> q = p)"
proof (induction step cs p arbitrary: evs q rule: on_data.induct)
  case (1 step p)
  then show ?case by simp
next
  case (2 step d cs p)
  let ?p' = "p\<lparr>logs := logs p @ [d], progress := min (progress p + step) 90\<rparr>"
  obtain evs' q' where r: "on_data step cs ?p' = (evs', q')" by (cases "on_data step cs ?p'")
  with "2.prems" have e: "evs = Progress ?p' # evs'" and q: "q = q'"
    by (simp_all add: Let_def)
  have le: "progress ?p' \<le> 90" by simp
  from "2.IH" [OF refl r le] have ih:
    "sorted (map progress (observed evs'))"
    "\<forall>x \<in> set (observed evs'). progress ?p' \<le> progress x \<and> progress x \<le> 90 \<and> status x = status ?p'"
    "progress ?p' \<le> progress q'" "progress q' \<le> 90" "status q' = status ?p'"
    "observed evs' \<noteq> [] \<longrightarrow> last (observed evs') = q'"
    "observed evs' = [] \<longrightarrow> q' = ?p'"
    by simp_all
  have p: "progress p \<le> progress ?p'" using "2.prems"(2) by simp
  show ?case
    unfolding e q using ih p r
    by (cases "observed evs' = []") (auto simp: Let_def)
next
  case (3 step d cs p)
  let ?p' = "p\<lparr>logs := logs p @ [d]\<rparr>"
  obtain evs' q' where r: "on_data step cs ?p' = (evs', q')" by (cases "on_data step cs ?p'")
  with "3.prems" have e: "evs = Progress ?p' # evs'" and q: "q = q'"
    by (simp_all add: Let_def)
  have le: "progress ?p' \<le> 90" using "3.prems"(2) by simp
  from "3.IH" [OF refl r le] have ih:
    "sorted (map progress (observed evs'))"
    "\<forall>x \<in> set (observed evs'). progress ?p' \<le> progress x \<and> progress x \<le> 90 \<and> status x = status ?p'"
    "progress ?p' \<le> progress q'" "progress q' \<le> 90" "status q' = status ?p'"
    "observed evs' \<noteq> [] \<longrightarrow> last (observed evs') = q'"
    "observed evs' = [] \<longrightarrow> q' = ?p'"
    by simp_all
  show ?case
    unfolding e q using ih r
    by (cases "observed evs' = []") (auto simp: Let_def)
qed

lemma observed_append: "observed (xs @ ys) = observed xs @ observed ys"
  by (induction xs rule: observed.induct) simp_all

lemma run_streamed_protocol:
  assumes "progress p0 = 0" and "status p0 = running"
  shows "progress_protocol (fst (run_streamed sys step file args cwd p0 msg))"
proof -
  obtain evs q where r: "on_data step (chunks (execa sys file args cwd)) p0 = (evs, q)"
    by (cases "on_data step (chunks (execa sys file args cwd)) p0")
  from assms(1) have "progress p0 \<le> 90" by simp
  from on_data_props [OF r this] assms have props:
    "sorted (map progress (observed evs))"
    "\<forall>x \<in> set (observed evs). progress x \<le> 90 \<and> status x = running"
    by simp_all
  show ?thesis
  proof (cases "exit_ok (execa sys file args cwd)")
    case True
    then have o: "observed (fst (run_streamed sys step file args cwd p0 msg))
        = p0 # observed evs @ [complete sys msg q]"
      using r by (simp add: run_streamed_def Let_def observed_append)
    have "sorted (map progress (p0 # observed evs @ [complete sys msg q]))"
      using props assms by (auto simp: sorted_append complete_def)
    moreover have "progress (complete sys msg q) = 100" "status (complete sys msg q) = completed"
      by (simp_all add: complete_def)
    ultimately show ?thesis unfolding progress_protocol_def o by simp
  next
    case False
    then have o: "observed (fst (run_streamed sys step file args cwd p0 msg)) = p0 # observed evs"
      using r by (simp add: run_streamed_def Let_def observed_append)
    have s: "sorted (map progress (p0 # observed evs))"
      using props assms by auto
    have "last (p0 # observed evs) \<in> set (p0 # observed evs)" by (rule last_in_set) simp
    with props assms have "progress (last (p0 # observed evs)) \<le> 90"
      "status (last (p0 # observed evs)) = running"
      by auto
    with s show ?thesis unfolding progress_protocol_def o by simp
  qed
qed

lemma run_awaited_protocol:
  assumes "progress p0 = 0" and "status p0 = running"
  shows "progress_protocol (fst (run_awaited sys file args cwd p0 msg))"
  using assms by (simp add: progress_protocol_def run_awaited_def Let_def complete_def)

lemma new_progress_initial:
  "progress (new_progress sys ty pkg msg) = 0" "status (new_progress sys ty pkg msg) = running"
  by (simp_all add: new_progress_def)

lemma no_events_protocol: "progress_protocol []"
  by (simp add: progress_protocol_def)

lemmas protocol_intros = run_streamed_protocol [OF new_progress_initial]
  run_awaited_protocol [OF new_progress_initial] no_events_protocol

text \<open>
  Claim C2: for \<^verbatim>\<open>install\<close>, \<^verbatim>\<open>uninstall\<close> and \<^verbatim>\<open>update\<close> of the four adapters, the
  progress values that the sink observes never decrease, and the last value observed is
  100 if and only if the last status observed is \<^verbatim>\<open>completed\<close>. (A call that is rejected
  by the validation reports nothing.)
\<close>

theorem adapter_progress_protocol:
  "progress_protocol (fst (npm_install sys pkgs cwd io))
   \<and> progress_protocol (fst (npm_uninstall sys pkgs cwd uo))
   \<and> progress_protocol (fst (npm_update sys pkgs cwd))
   \<and> progress_protocol (fst (yarn_install sys pkgs cwd io))
   \<and> progress_protocol (fst (yarn_uninstall sys pkgs cwd uo))
   \<and> progress_protocol (fst (yarn_update sys pkgs cwd))
   \<and> progress_protocol (fst (pnpm_install sys pkgs cwd io))
   \<and> progress_protocol (fst (pnpm_uninstall sys pkgs cwd uo))
   \<and> progress_protocol (fst (pnpm_update sys pkgs cwd))
   \<and> progress_protocol (fst (bun_install sys pkgs cwd io))
   \<and> progress_protocol (fst (bun_uninstall sys pkgs cwd uo))
   \<and> progress_protocol (fst (bun_update sys pkgs cwd))"
proof (intro conjI)
  show "progress_protocol (fst (npm_install sys pkgs cwd io))"
    by (simp add: npm_install_def protocol_intros split: sum.split)
  show "progress_protocol (fst (npm_uninstall sys pkgs cwd uo))"
    by (simp add: npm_uninstall_def protocol_intros split: sum.split)
  show "progress_protocol (fst (npm_update sys pkgs cwd))"
    by (simp add: npm_update_def protocol_intros split: sum.split)
  show "progress_protocol (fst (yarn_install sys pkgs cwd io))"
    by (simp add: yarn_install_def protocol_intros split: sum.split)
  show "progress_protocol (fst (yarn_uninstall sys pkgs cwd uo))"
    by (simp add: yarn_uninstall_def protocol_intros split: sum.split)
  show "progress_protocol (fst (yarn_update sys pkgs cwd))"
    by (simp add: yarn_update_def protocol_intros split: sum.split)
  show "progress_protocol (fst (pnpm_install sys pkgs cwd io))"
    by (simp add: pnpm_install_def protocol_intros split: sum.split)
  show "progress_protocol (fst (pnpm_uninstall sys pkgs cwd uo))"
    by (simp add: pnpm_uninstall_def protocol_intros split: sum.split)
  show "progress_protocol (fst (pnpm_update sys pkgs cwd))"
    by (simp add: pnpm_update_def protocol_intros split: sum.split)
  show "progress_protocol (fst (bun_install sys pkgs cwd io))"
    by (simp add: bun_install_def protocol_intros split: sum.split)
  show "progress_protocol (fst (bun_uninstall sys pkgs cwd uo))"
    by (simp add: bun_uninstall_def protocol_intros split: sum.split)
  show "progress_protocol (fst (bun_update sys pkgs cwd))"
    by (simp add: bun_update_def protocol_intros split: sum.split)
qed

theorem adapter_progress_protocol_witness:
  "map progress (observed (fst (bun_install demo_system [''left-pad''] ''/tmp/app'' None)))
     = [0, 20, 20, 40, 100]
   \<and> sorted (map progress (observed (fst (bun_install demo_system [''left-pad''] ''/tmp/app'' None))))
   \<and> status (last (observed (fst (bun_install demo_system [''left-pad''] ''/tmp/app'' None))))
       = completed
   \<and> map progress (observed (fst (npm_install demo_system [''react''] ''/tmp/app'' None))) = [0, 10]
   \<and> snd (npm_install demo_system [''react''] ''/tmp/app'' None) = Inl (Error ''Command failed'')
   \<and> status (last (observed (fst (npm_install demo_system [''react''] ''/tmp/app'' None))))
       \<noteq> completed"
proof -
  let ?b = "observed (fst (bun_install demo_system [''left-pad''] ''/tmp/app'' None))"
  let ?n = "observed (fst (npm_install demo_system [''react''] ''/tmp/app'' None))"
  have b: "map progress ?b = [0, 20, 20, 40, 100]" by code_simp
  have n: "map progress ?n = [0, 10]" by code_simp
  have r: "snd (npm_install demo_system [''react''] ''/tmp/app'' None) = Inl (Error ''Command failed'')"
    by code_simp
  from b have bne: "?b \<noteq> []" by auto
  from n have nne: "?n \<noteq> []" by auto
  from b bne have bl: "progress (last ?b) = 100"
    using last_map [of ?b progress] by simp
  from n nne have nl: "progress (last ?n) \<noteq> 100"
    using last_map [of ?n progress] by simp
  from adapter_progress_protocol [of demo_system "[''left-pad'']" "''/tmp/app''" None]
  have "progress_protocol (fst (bun_install demo_system [''left-pad''] ''/tmp/app'' None))"
    by blast
  with bne bl have 1: "sorted (map progress ?b)" "status (last ?b) = completed"
    by (simp_all add: progress_protocol_def)
  from adapter_progress_protocol [of demo_system "[''react'']" "''/tmp/app''" None]
  have "progress_protocol (fst (npm_install demo_system [''react''] ''/tmp/app'' None))"
    by blast
  with nne nl have 2: "status (last ?n) \<noteq> completed"
    by (simp add: progress_protocol_def)
  from b n r 1 2 show ?thesis by blast
qed

subsection \<open>Validation of the package list\<close>

text \<open>
  Claim C10: an empty list and a list of more than 100 names are rejected by
  \<^verbatim>\<open>validatePackageNames\<close>, and whenever \<^verbatim>\<open>validatePackageNames\<close> rejects, \<^verbatim>\<open>install\<close>
  and \<^verbatim>\<open>uninstall\<close> of every adapter reject with the same error and with no event: no
  process is spawned and nothing is reported to the sink.
\<close>

theorem package_list_checked_before_any_effect:
  "(pkgs = [] \<longrightarrow> validatePackageNames pkgs = Inl (Error ''Packages array is required''))
   \<and> (100 < length pkgs \<longrightarrow> validatePackageNames pkgs = Inl (Error ''Too many packages (max 100)''))
   \<and> (validatePackageNames pkgs = Inl e \<longrightarrow>
        npm_install sys pkgs cwd io = ([], Inl e)
        \<and> npm_uninstall sys pkgs cwd uo = ([], Inl e)
        \<and> yarn_install sys pkgs cwd io = ([], Inl e)
        \<and> yarn_uninstall sys pkgs cwd uo = ([], Inl e)
        \<and> pnpm_install sys pkgs cwd io = ([], Inl e)
        \<and> pnpm_uninstall sys pkgs cwd uo = ([], Inl e)
        \<and> bun_install sys pkgs cwd io = ([], Inl e)
        \<and> bun_uninstall sys pkgs cwd uo = ([], Inl e))"
  by (simp add: validatePackageNames_def validate_install_def npm_install_def npm_uninstall_def
      yarn_install_def yarn_uninstall_def pnpm_install_def pnpm_uninstall_def bun_install_def
      bun_uninstall_def)

theorem package_list_checked_before_any_effect_witness:
  "npm_install demo_system [] ''/tmp/app'' None = ([], Inl (Error ''Packages array is required''))
   \<and> yarn_uninstall demo_system [] ''/tmp/app'' None
       = ([], Inl (Error ''Packages array is required''))
   \<and> 100 < length (replicate 101 ''left-pad'')
   \<and> bun_install demo_system (replicate 101 ''left-pad'') ''/tmp/app'' None
       = ([], Inl (Error ''Too many packages (max 100)''))
   \<and> pnpm_uninstall demo_system (replicate 101 ''left-pad'') ''/tmp/app'' None
       = ([], Inl (Error ''Too many packages (max 100)''))
   \<and> observed (fst (bun_install demo_system (replicate 101 ''left-pad'') ''/tmp/app'' None)) = []
   \<and> spawned (fst (bun_install demo_system (replicate 101 ''left-pad'') ''/tmp/app'' None)) = []"
  using package_list_checked_before_any_effect
          [of "[]" "Error ''Packages array is required''" demo_system "''/tmp/app''" None None]
        package_list_checked_before_any_effect
          [of "replicate 101 ''left-pad''" "Error ''Too many packages (max 100)''" demo_system
              "''/tmp/app''" None None]
  by simp

subsection \<open>Groups that take part in every match\<close>

text \<open>
  The code reads \<^verbatim>\<open>match[1]\<close> and \<^verbatim>\<open>match[2]\<close> of a match as strings. In each of its
  patterns these groups take part in every match, so the value read is a string.
\<close>

lemma iter_greedy_caps:
  assumes "\<And>s t. t \<in> set (f s) \<Longrightarrow> set (caps s) \<subseteq> set (caps t)"
  shows "t \<in> set (iter_greedy f n s) \<Longrightarrow> set (caps s) \<subseteq> set (caps t)"
proof (induction n arbitrary: s t)
  case 0
  then show ?case by simp
next
  case (Suc n)
  then show ?case by (fastforce dest: assms)
qed

lemma iter_lazy_caps:
  assumes "\<And>s t. t \<in> set (f s) \<Longrightarrow> set (caps s) \<subseteq> set (caps t)"
  shows "t \<in> set (iter_lazy f n s) \<Longrightarrow> set (caps s) \<subseteq> set (caps t)"
proof (induction n arbitrary: s t)
  case 0
  then show ?case by simp
next
  case (Suc n)
  then show ?case by (fastforce dest: assms)
qed

lemma rmatch_caps: "t \<in> set (rmatch m r s) \<Longrightarrow> set (caps s) \<subseteq> set (caps t)"
proof (induction r arbitrary: s t)
  case (Sym P)
  then show ?case by (cases "rest s") (auto split: if_splits)
next
  case (Seq a b)
  then show ?case by fastforce
next
  case (Alt a b)
  from Alt.prems have "t \<in> set (rmatch m a s) \<or> t \<in> set (rmatch m b s)" by simp
  then show ?case using Alt.IH by blast
next
  case (Star r)
  then show ?case using iter_greedy_caps [of "rmatch m r"] by auto
next
  case (LazyStar r)
  then show ?case using iter_lazy_caps [of "rmatch m r"] by auto
next
  case (Grp n r)
  then show ?case by fastforce
qed (auto split: if_splits)

lemma rmatch_captures:
  "captures n r \<Longrightarrow> t \<in> set (rmatch m r s) \<Longrightarrow> n \<in> fst ` set (caps t)"
proof (induction r arbitrary: s t)
  case (Seq a b)
  from Seq.prems(2) obtain u where u: "u \<in> set (rmatch m a s)" and t: "t \<in> set (rmatch m b u)"
    by auto
  show ?case
  proof (cases "captures n a")
    case True
    with Seq.IH(1) u have "n \<in> fst ` set (caps u)" by simp
    with rmatch_caps [OF t] show ?thesis by auto
  next
    case False
    with Seq.prems(1) have "captures n b" by simp
    with Seq.IH(2) t show ?thesis by simp
  qed
next
  case (Alt a b)
  then show ?case by auto
next
  case (Grp k r)
  from Grp.prems(2) obtain u where u: "u \<in> set (rmatch m r s)"
    and t: "t = u\<lparr>caps := (k, take (length (rest s) - length (rest u)) (rest s)) # caps u\<rparr>"
    by auto
  show ?case
  proof (cases "k = n")
    case True
    with t show ?thesis by simp
  next
    case False
    with Grp.prems(1) have "captures n r" by simp
    with Grp.IH u have "n \<in> fst ` set (caps u)" by simp
    with t show ?thesis by auto
  qed
qed simp_all

lemma search_Some: "search m r pre s = Some (s0, t) \<Longrightarrow> t \<in> set (rmatch m r s0)"
  by (induction m r pre s rule: search.induct) (auto split: list.splits)

lemma re_match_group:
  assumes "captures n r" and "re_match m r s = Some g"
  shows "\<exists>v. g n = Some v"
proof -
  from assms(2) obtain s0 t where st: "search m r [] s = Some (s0, t)" and g: "g = map_of (caps t)"
    by (auto simp: re_match_def)
  from rmatch_captures [OF assms(1) search_Some [OF st]] have "n \<in> fst ` set (caps t)" .
  then have "map_of (caps t) n \<noteq> None" by (simp add: map_of_eq_None_iff)
  with g show ?thesis by auto
qed

lemma exec_loop_group:
  "captures n r \<Longrightarrow> exec_loop m r k pre s = Some ms \<Longrightarrow> g \<in> set ms \<Longrightarrow> \<exists>v. g n = Some v"
proof (induction m r k pre s arbitrary: ms rule: exec_loop.induct)
  case (1 m r k pre)
  then show ?case by (auto split: if_splits list.splits)
next
  case (2 m r k pre c cs)
  then show ?case by simp
next
  case (3 m r pre c cs)
  show ?case
  proof (cases "rmatch m r \<lparr>consumed = pre, rest = c # cs, caps = []\<rparr>")
    case Nil
    with 3 show ?thesis by simp
  next
    case (Cons t ts)
    let ?n = "length (c # cs) - length (rest t)"
    from "3.prems"(2) Cons have n: "?n \<noteq> 0"
      by (auto simp: Let_def split: if_splits)
    with "3.prems"(2) Cons obtain ms' where ms': "exec_loop m r (?n - 1) (c # pre) cs = Some ms'"
      and ms: "ms = map_of (caps t) # ms'"
      by (auto simp: Let_def split: if_splits)
    show ?thesis
    proof (cases "g = map_of (caps t)")
      case True
      have "t \<in> set (rmatch m r \<lparr>consumed = pre, rest = c # cs, caps = []\<rparr>)"
        using Cons by simp
      from rmatch_captures [OF "3.prems"(1) this] have "map_of (caps t) n \<noteq> None"
        by (simp add: map_of_eq_None_iff)
      with True show ?thesis by auto
    next
      case False
      with "3.prems"(3) ms have "g \<in> set ms'" by simp
      from "3.IH"(2) [OF Cons refl n "3.prems"(1) ms' this] show ?thesis .
    qed
  qed
qed

lemma site_match_names_package:
  "re_match False (urlPattern domain) trimmed = Some g \<Longrightarrow> \<exists>v. g 1 = Some v"
  by (rule re_match_group [of 1 "urlPattern domain"]) (simp_all add: urlPattern_def seqs_def)

lemma git_match_names_owner_and_repo:
  assumes "pattern \<in> set git_patterns" and "re_match False pattern repoUrl = Some g"
  shows "(\<exists>v. g 1 = Some v) \<and> (\<exists>v. g 2 = Some v)"
proof -
  from assms(1) have "captures 1 pattern" "captures 2 pattern"
    by (auto simp: git_patterns_def seqs_def)
  with assms(2) show ?thesis by (auto dest: re_match_group)
qed

lemma yarn_match_names_entry:
  assumes "exec_loop True yarn_entry k pre s = Some ms" and "g \<in> set ms"
  shows "(\<exists>v. g 1 = Some v) \<and> (\<exists>v. g 2 = Some v)"
proof -
  have "captures 1 yarn_entry" "captures 2 yarn_entry"
    by (simp_all add: yarn_entry_def seqs_def)
  with assms show ?thesis by (auto dest: exec_loop_group)
qed

lemma pnpm_match_names_entry:
  assumes "re_match False pnpm_entry line = Some g"
  shows "(\<exists>v. g 1 = Some v) \<and> (\<exists>v. g 2 = Some v)"
proof -
  have "captures 1 pnpm_entry" "captures 2 pnpm_entry"
    by (simp_all add: pnpm_entry_def seqs_def)
  with assms show ?thesis by (auto dest: re_match_group)
qed

subsection \<open>The loop over the results of OSV ends\<close>

text \<open>
  The loop \<^verbatim>\<open>for (let i = 0; i < results.length; i++)\<close> of \<^verbatim>\<open>checkVulnerabilities\<close> goes on
  only while \<^verbatim>\<open>results[i]\<close> is there (\<^verbatim>\<open>results[i].vulns\<close> throws otherwise), and a value
  holds no more indices than \<^const>\<open>held_indices\<close> counts: the steps that
  \<^const>\<open>checkVulnerabilities\<close> gives to \<^const>\<open>osv_results\<close> are never used up.
\<close>

declare show_nat.simps [simp del]

lemma show_nat_nonempty: "show_nat n \<noteq> []"
  by (subst show_nat.simps) simp

lemma digit_inj:
  assumes "a < 10" and "b < 10"
    and "(char_of (48 + a :: nat) :: char) = char_of (48 + b)"
  shows "a = b"
proof -
  from assms(3) have "(of_char (char_of (48 + a :: nat) :: char) :: nat)
      = of_char (char_of (48 + b :: nat) :: char)"
    by simp
  with assms(1,2) show "a = b" by (simp add: of_char_of)
qed

lemma show_nat_small: "n < 10 \<Longrightarrow> show_nat n = [char_of (48 + n)]"
  by (subst show_nat.simps) simp

lemma show_nat_large:
  "\<not> n < 10 \<Longrightarrow> show_nat n = show_nat (n div 10) @ [char_of (48 + n mod 10)]"
  by (subst show_nat.simps) simp

lemma show_nat_inj: "show_nat m = show_nat n \<Longrightarrow> m = n"
proof (induction m arbitrary: n rule: show_nat.induct)
  case (1 m)
  show ?case
  proof (cases "m < 10")
    case True
    note m = this
    show ?thesis
    proof (cases "n < 10")
      case True
      with m "1.prems" show ?thesis
        by (simp add: show_nat_small digit_inj)
    next
      case False
      with m "1.prems" show_nat_nonempty [of "n div 10"] show ?thesis
        by (simp add: show_nat_small show_nat_large)
    qed
  next
    case False
    note m = this
    show ?thesis
    proof (cases "n < 10")
      case True
      with m "1.prems" show_nat_nonempty [of "m div 10"] show ?thesis
        by (simp add: show_nat_small show_nat_large)
    next
      case False
      with m "1.prems" have e: "show_nat (m div 10) = show_nat (n div 10)"
        and d: "(char_of (48 + m mod 10) :: char) = char_of (48 + n mod 10)"
        by (simp_all add: show_nat_large)
      from "1.IH" [OF m e] have "m div 10 = n div 10" .
      moreover from d have "m mod 10 = n mod 10" by (intro digit_inj) simp_all
      ultimately show ?thesis by (metis div_mult_mod_eq)
    qed
  qed
qed

lemma nth_opt_None: "nth_opt xs i = None \<longleftrightarrow> length xs \<le> i"
  by (induction xs i rule: nth_opt.induct) auto

lemma held_finite_card: "finite (held v) \<and> card (held v) \<le> held_indices v"
proof (cases v)
  case (JArr xs)
  have "held (JArr xs) = {..<length xs}" by (auto simp: held_def nth_opt_None)
  with JArr show ?thesis by simp
next
  case (JStr s)
  have "held (JStr s) = {..<length s}" by (auto simp: held_def nth_opt_None)
  with JStr show ?thesis by simp
next
  case (JObj kvs)
  have h: "held (JObj kvs) = show_nat -` (fst ` set kvs)"
    by (auto simp: held_def map_of_eq_None_iff)
  have inj: "inj show_nat" by (rule injI) (rule show_nat_inj)
  have f: "finite (show_nat -` (fst ` set kvs))"
    by (rule finite_vimageI) (simp_all add: inj)
  have "card (show_nat -` (fst ` set kvs)) = card (show_nat ` (show_nat -` (fst ` set kvs)))"
    by (rule card_image [symmetric]) (rule inj_on_subset [OF inj], simp)
  also have "\<dots> \<le> card (fst ` set kvs)"
    by (rule card_mono) auto
  also have "\<dots> \<le> length kvs"
    by (metis card_image_le card_length le_trans List.finite_set)
  finally show ?thesis using JObj h f by simp
qed (simp_all add: held_def)

lemma then_do_Inl:
  "then_do x f = Inl e \<Longrightarrow> x = Inl e \<or> (\<exists>v. x = Inr v \<and> f v = Inl e)"
  by (cases x) (simp_all add: then_do_def)

lemma get_prop_error: "get_prop v k = Inl e \<Longrightarrow> e = TypeError"
proof (cases v)
  case None
  then show "get_prop v k = Inl e \<Longrightarrow> e = TypeError" by simp
next
  case (Some w)
  then show "get_prop v k = Inl e \<Longrightarrow> e = TypeError" by (cases w) simp_all
qed

lemma mapOsvSeverity_error: "mapOsvSeverity v = Inl e \<Longrightarrow> e = TypeError"
  by (auto simp: Let_def split: if_splits option.splits json.splits)

lemma osv_vuln_severity_error: "osv_vuln_severity v = Inl e \<Longrightarrow> e = TypeError"
  unfolding osv_vuln_severity_def
  by (auto simp del: mapOsvSeverity.simps split: sum.splits if_splits
      dest: get_prop_error mapOsvSeverity_error)

lemma get_fixed_error: "get_fixed v = Inl e \<Longrightarrow> e = TypeError"
  by (induction v rule: get_fixed.induct) (auto dest: get_prop_error split: sum.splits)

lemma find_fixed_error: "find_fixed es = Inl e \<Longrightarrow> e = TypeError"
  by (induction es) (auto dest!: then_do_Inl dest: get_fixed_error split: if_splits)

lemma opt_find_fixed_error: "opt_find_fixed v = Inl e \<Longrightarrow> e = TypeError"
  by (induction v rule: opt_find_fixed.induct) (auto dest: find_fixed_error)

lemma fixed_version_error: "fixed_version v = Inl e \<Longrightarrow> e = TypeError"
  unfolding fixed_version_def
  by (auto dest!: then_do_Inl dest: get_prop_error opt_find_fixed_error get_fixed_error
      split: option.splits json.splits)

lemma osv_entry_error: "osv_entry h pkg v = Inl e \<Longrightarrow> e = TypeError"
  unfolding osv_entry_def
  by (auto dest!: then_do_Inl dest: get_prop_error osv_vuln_severity_error fixed_version_error
      split: option.splits prod.splits)

lemma osv_entries_error: "osv_entries h pkg vs acc = Inl e \<Longrightarrow> e = TypeError"
  by (induction vs arbitrary: acc) (auto dest!: then_do_Inl dest: osv_entry_error)

lemma iterate_error: "iterate v = Inl e \<Longrightarrow> e = TypeError"
  by (cases v) simp_all

lemma osv_results_steps:
  "card {j \<in> held v. i \<le> j} < n \<Longrightarrow> osv_results h pk v n i acc \<noteq> Inl (Error ''steps'')"
proof (induction n arbitrary: i acc)
  case 0
  then show ?case by simp
next
  case (Suc n)
  show ?case
  proof (cases "index_lt h i (js_length v)")
    case False
    then show ?thesis by simp
  next
    case True
    show ?thesis
    proof
      assume a: "osv_results h pk v (Suc n) i acc = Inl (Error ''steps'')"
      with True have "then_do (get_prop (js_index v i) ''vulns'') (\<lambda>vulns.
          then_do (iterate (js_or_else vulns (JArr []))) (\<lambda>vs.
          then_do (osv_entries h (nth_opt pk i) vs acc) (\<lambda>acc'.
            osv_results h pk v n (Suc i) acc'))) = Inl (Error ''steps'')"
        by simp
      then obtain vulns acc' where g: "get_prop (js_index v i) ''vulns'' = Inr vulns"
        and r: "osv_results h pk v n (Suc i) acc' = Inl (Error ''steps'')"
        by (auto dest!: then_do_Inl dest: get_prop_error iterate_error osv_entries_error)
      from g have "js_index v i \<noteq> None" by (cases "js_index v i") simp_all
      then have i: "i \<in> held v" by (simp add: held_def)
      have fin: "finite {j \<in> held v. i \<le> j}" using held_finite_card [of v] by simp
      have "{j \<in> held v. Suc i \<le> j} = {j \<in> held v. i \<le> j} - {i}" by auto
      then have "card {j \<in> held v. Suc i \<le> j} = card {j \<in> held v. i \<le> j} - 1"
        using i fin by simp
      moreover have "0 < card {j \<in> held v. i \<le> j}"
        using i fin by (auto simp: card_gt_0_iff)
      ultimately have "card {j \<in> held v. Suc i \<le> j} < n" using Suc.prems by simp
      from Suc.IH [OF this] r show False by simp
    qed
  qed
qed

lemma osv_results_enough_steps:
  "osv_results h pk v (held_indices v + 2) 0 acc \<noteq> Inl (Error ''steps'')"
proof (rule osv_results_steps)
  have "card {j \<in> held v. 0 \<le> j} \<le> card (held v)"
    using held_finite_card [of v] by (intro card_mono) auto
  with held_finite_card [of v] show "card {j \<in> held v. 0 \<le> j} < held_indices v + 2" by simp
qed

lemma fixed_version_of_string_event:
  "fixed_version (Some (JObj [(''affected'',
      JArr [JObj [(''ranges'', JArr [JObj [(''events'', JArr [JStr ''1.2.3''])]])]])]))
     = Inr String_prototype_fixed"
  by code_simp

subsection \<open>The tree of the npm parser\<close>

lemma npm_packages_loop_null:
  "list_ex (\<lambda>e. top_level e \<and> snd e = JNull) es \<Longrightarrow> npm_packages_loop es cs = Inl TypeError"
proof (induction es arbitrary: cs)
  case Nil
  then show ?case by simp
next
  case (Cons e es)
  obtain path info where e: "e = (path, info)" by (cases e)
  show ?case
  proof (cases "startsWith path ''node_modules/''")
    case False
    with Cons e show ?thesis by (simp add: top_level_def)
  next
    case sw: True
    show ?thesis
    proof (cases "segment_count path = 1")
      case False
      with Cons e sw show ?thesis
        by (simp add: top_level_def kept_path startsWith_nonempty del: length_0_conv)
    next
      case True
      show ?thesis
      proof (cases "info = JNull")
        case True
        with e sw \<open>segment_count path = 1\<close> show ?thesis
          by (simp add: kept_path startsWith_nonempty)
      next
        case False
        with Cons.prems e have "list_ex (\<lambda>e. top_level e \<and> snd e = JNull) es" by simp
        from Cons.IH [OF this] e sw True False show ?thesis
          by (simp add: kept_path startsWith_nonempty get_prop_non_null)
      qed
    qed
  qed
qed

lemma npm_deps_loop_null:
  "list_ex (\<lambda>e. snd e = JNull) es \<Longrightarrow> npm_deps_loop es cs = Inl TypeError"
proof (induction es arbitrary: cs)
  case Nil
  then show ?case by simp
next
  case (Cons e es)
  obtain nm info where e: "e = (nm, info)" by (cases e)
  show ?case
  proof (cases "info = JNull")
    case True
    with e show ?thesis by simp
  next
    case False
    with Cons.prems e have "list_ex (\<lambda>e. snd e = JNull) es" by simp
    from Cons.IH [OF this] e False show ?thesis by (simp add: get_prop_non_null)
  qed
qed

lemma npm_deps_loop_total:
  "\<not> list_ex (\<lambda>e. snd e = JNull) es \<Longrightarrow> npm_deps_loop es cs = Inr (cs @ map npm_dep_child es)"
proof (induction es arbitrary: cs)
  case Nil
  then show ?case by simp
next
  case (Cons e es)
  obtain nm info where e: "e = (nm, info)" by (cases e)
  with Cons.prems have nn: "info \<noteq> JNull" and rest: "\<not> list_ex (\<lambda>e. snd e = JNull) es"
    by simp_all
  from Cons.IH [OF rest] e nn show ?case
    by (simp add: get_prop_non_null npm_dep_child_def)
qed

lemma npm_packages_loop_readable:
  assumes "\<not> list_ex (\<lambda>e. top_level e \<and> snd e = JNull) es"
  shows "npm_packages_loop es cs = Inr (cs @ map npm_child (filter top_level es))"
proof -
  from assms have "\<forall>e \<in> set es. top_level e \<longrightarrow> snd e \<noteq> JNull"
    by (auto simp: list_ex_iff)
  from npm_packages_loop_total [OF this] obtain r where r: "npm_packages_loop es cs = Inr r"
    by blast
  from npm_packages_loop_Inr [OF r] r show ?thesis by simp
qed

text \<open>The tree of \<^verbatim>\<open>parseNpmLockFile\<close> for every content.\<close>

lemma parseNpmLockFile_tree:
  "parseNpmLockFile h content =
     (case JSON_parse h content of
        None \<Rightarrow> empty_root
      | Some lock \<Rightarrow>
          if npm_unreadable lock then empty_root
          else Node (js_or_else (opt_prop (Some lock) ''name'') (JStr ''root''))
                    (js_or_else (opt_prop (Some lock) ''version'') (JStr ''0.0.0''))
                    (npm_children lock))"
proof (cases "JSON_parse h content")
  case None
  then show ?thesis by (simp add: parseNpmLockFile_def)
next
  case (Some lock)
  show ?thesis
  proof (cases "lock = JNull")
    case True
    with Some show ?thesis
      by (simp add: parseNpmLockFile_def npm_lock_tree_null npm_unreadable_def)
  next
    case nn: False
    note t = npm_lock_tree_non_null [OF nn, folded lock_packages_def lock_dependencies_def]
    show ?thesis
    proof (cases "lock_packages lock = []")
      case False
      show ?thesis
      proof (cases "list_ex (\<lambda>e. top_level e \<and> snd e = JNull) (lock_packages lock)")
        case True
        from npm_packages_loop_null [OF True] Some nn False True show ?thesis
          by (simp add: parseNpmLockFile_def t Let_def npm_unreadable_def)
      next
        case r: False
        from npm_packages_loop_readable [OF r, of "[]"] Some nn False r show ?thesis
          by (simp add: parseNpmLockFile_def t Let_def npm_unreadable_def npm_children_def)
      qed
    next
      case True
      show ?thesis
      proof (cases "list_ex (\<lambda>e. snd e = JNull) (lock_dependencies lock)")
        case n: True
        then have "lock_dependencies lock \<noteq> []" by auto
        with npm_deps_loop_null [OF n] Some nn True n show ?thesis
          by (simp add: parseNpmLockFile_def t Let_def npm_unreadable_def)
      next
        case r: False
        from npm_deps_loop_total [OF r, of "[]"] Some nn True r show ?thesis
          by (cases "lock_dependencies lock = []")
             (simp_all add: parseNpmLockFile_def t Let_def npm_unreadable_def npm_children_def)
      qed
    qed
  qed
qed

lemma npm_children_leaves: "\<forall>c \<in> set (npm_children lock). children c = []"
  by (auto simp: npm_children_def npm_child_def npm_dep_child_def)

lemma version_of_top_level:
  assumes "segment_count (''node_modules/'' @ nm) = 1"
  shows "version_of (map npm_child (filter top_level es)) nm
         = entry_version es (''node_modules/'' @ nm)"
proof (induction es)
  case Nil
  then show ?case by (simp add: version_of_def entry_version_def)
next
  case (Cons e es)
  show ?case
  proof (cases "fst e = ''node_modules/'' @ nm")
    case True
    with assms have "top_level e" by (simp add: top_level_def startsWith_def)
    with True show ?thesis
      by (cases e) (simp add: version_of_def entry_version_def npm_child_def)
  next
    case False
    show ?thesis
    proof (cases "top_level e")
      case t: True
      then obtain r where r: "fst e = ''node_modules/'' @ r"
        by (auto simp: top_level_def startsWith_def prefix_def)
      with False have "r \<noteq> nm" by auto
      with Cons.IH t r False show ?thesis
        by (cases e) (simp add: version_of_def entry_version_def npm_child_def)
    next
      case f: False
      with Cons.IH False show ?thesis
        by (cases e) (simp add: version_of_def entry_version_def)
    qed
  qed
qed

lemma version_of_dependencies:
  "version_of (map npm_dep_child es) nm = entry_version es nm"
  by (induction es) (auto simp: version_of_def entry_version_def npm_dep_child_def)

lemma npm_child_names:
  "\<forall>c \<in> set (map npm_child (filter top_level es)).
     \<exists>nm. name c = JStr nm \<and> segment_count (''node_modules/'' @ nm) = 1"
proof
  fix c assume "c \<in> set (map npm_child (filter top_level es))"
  then obtain e where e: "e \<in> set es" "top_level e" and c: "c = npm_child e" by auto
  from e(2) obtain r where r: "fst e = ''node_modules/'' @ r"
    by (auto simp: top_level_def startsWith_def prefix_def)
  with e(2) c show "\<exists>nm. name c = JStr nm \<and> segment_count (''node_modules/'' @ nm) = 1"
    by (intro exI [of _ r]) (simp add: npm_child_def top_level_def)
qed

lemma npm_child_names_distinct:
  assumes d: "distinct (map fst es)"
  shows "distinct (map name (map npm_child (filter top_level es)))"
proof -
  let ?f = "\<lambda>e. JStr (drop (length ''node_modules/'') (fst e))"
  have eq: "map name (map npm_child (filter top_level es)) = map ?f (filter top_level es)"
    by (simp add: npm_child_def)
  have df: "distinct (filter top_level es)"
    using d by (simp add: distinct_map)
  have inj: "inj_on ?f (set (filter top_level es))"
  proof (rule inj_onI)
    fix x y
    assume x: "x \<in> set (filter top_level es)" and y: "y \<in> set (filter top_level es)"
      and e: "?f x = ?f y"
    from x y obtain rx ry where "fst x = ''node_modules/'' @ rx" "fst y = ''node_modules/'' @ ry"
      by (auto simp: top_level_def startsWith_def prefix_def)
    with e have "fst x = fst y" by simp
    moreover from d have "inj_on fst (set es)" by (simp add: distinct_map)
    ultimately show "x = y" using x y by (auto dest: inj_onD)
  qed
  from df inj have "distinct (map ?f (filter top_level es))" by (simp add: distinct_map)
  with eq show ?thesis by (simp only:)
qed

lemma npm_dep_child_names_distinct:
  assumes d: "distinct (map fst es)"
  shows "distinct (map name (map npm_dep_child es))"
proof -
  have "map name (map npm_dep_child es) = map JStr (map fst es)"
    by (simp add: npm_dep_child_def)
  moreover have "distinct (map JStr (map fst es))"
    using d by (simp add: distinct_map inj_on_def)
  ultimately show ?thesis by (simp only:)
qed

subsection \<open>Shape of the tree\<close>

text \<open>
  Claim C4, as stated, fails for npm in two of its parts. The root takes the name and the
  version of the lock file (\<^verbatim>\<open>lock.name || 'root'\<close>), here \<^verbatim>\<open>app\<close> and \<^verbatim>\<open>1.2.0\<close>. And
  the children are not the direct dependencies only: the project depends on \<^verbatim>\<open>a\<close>
  alone, \<^verbatim>\<open>b\<close> is a dependency of \<^verbatim>\<open>a\<close> that npm has hoisted to
  \<^verbatim>\<open>node_modules/b\<close>, and \<^verbatim>\<open>b\<close> is a child of the root.
\<close>

theorem npm_root_named_and_hoisted_child:
  "parseLockFile hoisted_host hoisted_lock_text npm
     = Some (Node (JStr ''app'') (JStr ''1.2.0'')
               [Node (JStr ''a'') (JStr ''1.0.0'') [], Node (JStr ''b'') (JStr ''2.0.0'') []])
   \<and> JSON_parse hoisted_host hoisted_lock_text = Some hoisted_lock
   \<and> direct_dependencies hoisted_lock = [''a'']"
  by code_simp

text \<open>
  Claim C4, amended: for every content and lock type \<^verbatim>\<open>parseLockFile\<close> returns a tree
  one level deep (no child has children). For yarn and pnpm the root is
  \<^verbatim>\<open>{name: 'root', version: '0.0.0'}\<close> and its children are the entries of the lock
  file, the first of each name. For npm the tree is \<^verbatim>\<open>{name: 'root', version: '0.0.0'}\<close>
  without children when the content does not parse, parses to \<^verbatim>\<open>null\<close>, or has an
  entry \<^verbatim>\<open>null\<close> where the loop reads a version; otherwise the name of the root is the
  name of the lock file when that is truthy, else \<^verbatim>\<open>root\<close>, its version the version of
  the lock file when truthy, else \<^verbatim>\<open>0.0.0\<close>, and its children are the top-level entries
  of \<^verbatim>\<open>packages\<close> (or every entry of \<^verbatim>\<open>dependencies\<close> when \<^verbatim>\<open>packages\<close> has none),
  whether the project depends on them directly or not.
\<close>

theorem parseLockFile_shape:
  "\<exists>root. parseLockFile h content ty = Some root
     \<and> (\<forall>c \<in> set (children root). children c = [])
     \<and> (ty = yarn \<longrightarrow>
          (\<exists>es. yarn_entries content = Some es
             \<and> root = Node (JStr ''root'') (JStr ''0.0.0'')
                      (map entry_node (unseen_entries es {}))))
     \<and> (ty = pnpm \<longrightarrow>
          root = Node (JStr ''root'') (JStr ''0.0.0'')
                   (map entry_node
                      (unseen_entries (pnpm_entries (split content [CHR 0x0A]) False) {})))
     \<and> (ty = npm \<longrightarrow>
          (case JSON_parse h content of
             None \<Rightarrow> root = empty_root
           | Some lock \<Rightarrow>
               if npm_unreadable lock then root = empty_root
               else root = Node (js_or_else (opt_prop (Some lock) ''name'') (JStr ''root''))
                                (js_or_else (opt_prop (Some lock) ''version'') (JStr ''0.0.0''))
                                (npm_children lock)))"
proof (cases ty)
  case npm
  show ?thesis
  proof (cases "JSON_parse h content")
    case None
    then have "parseNpmLockFile h content = empty_root" by (simp add: parseNpmLockFile_tree)
    with npm None show ?thesis by (simp add: empty_root_def)
  next
    case (Some lock)
    show ?thesis
    proof (cases "npm_unreadable lock")
      case True
      with Some have "parseNpmLockFile h content = empty_root"
        by (simp add: parseNpmLockFile_tree)
      with npm Some True show ?thesis by (simp add: empty_root_def)
    next
      case False
      with Some have "parseNpmLockFile h content
          = Node (js_or_else (opt_prop (Some lock) ''name'') (JStr ''root''))
                 (js_or_else (opt_prop (Some lock) ''version'') (JStr ''0.0.0''))
                 (npm_children lock)"
        by (simp add: parseNpmLockFile_tree)
      with npm Some False npm_children_leaves [of lock] show ?thesis by simp
    qed
  qed
next
  case yarn
  from yarn_tree [of content] obtain es where
    "yarn_entries content = Some es"
    "parseYarnLockFile content
       = Some (Node (JStr ''root'') (JStr ''0.0.0'') (map entry_node (unseen_entries es {})))"
    by blast
  with yarn entry_node_children [of "unseen_entries es {}"] show ?thesis by simp
next
  case pnpm
  with pnpm_tree [of content]
    entry_node_children [of "unseen_entries (pnpm_entries (split content [CHR 0x0A]) False) {}"]
  show ?thesis by simp
qed

theorem parseLockFile_shape_witness:
  "parseLockFile lock_host yarn_sample yarn
     = Some (Node (JStr ''root'') (JStr ''0.0.0'') [Node (JStr ''lodash'') (JStr ''4.17.21'') []])
   \<and> parseLockFile lock_host pnpm_sample pnpm
     = Some (Node (JStr ''root'') (JStr ''0.0.0'') [Node (JStr ''lodash'') (JStr ''4.17.21'') []])
   \<and> JSON_parse hoisted_host hoisted_lock_text = Some hoisted_lock
   \<and> \<not> npm_unreadable hoisted_lock
   \<and> parseLockFile hoisted_host hoisted_lock_text npm
     = Some (Node (JStr ''app'') (JStr ''1.2.0'')
               [Node (JStr ''a'') (JStr ''1.0.0'') [], Node (JStr ''b'') (JStr ''2.0.0'') []])
   \<and> JSON_parse hoisted_host null_entry_text = Some null_entry_lock
   \<and> npm_unreadable null_entry_lock
   \<and> parseLockFile hoisted_host null_entry_text npm = Some empty_root
   \<and> JSON_parse hoisted_host ''{'' = None
   \<and> parseLockFile hoisted_host ''{'' npm = Some empty_root"
proof -
  have y: "yarn_entries yarn_sample = Some [(''lodash'', ''4.17.21''), (''lodash'', ''3.10.1'')]"
    by code_simp
  have p: "pnpm_entries (split pnpm_sample [CHR 0x0A]) False
             = [(''lodash'', ''4.17.21''), (''lodash'', ''3.10.1'')]"
    by code_simp
  have u: "map entry_node (unseen_entries [(''lodash'', ''4.17.21''), (''lodash'', ''3.10.1'')] {})
             = [Node (JStr ''lodash'') (JStr ''4.17.21'') []]"
    by (simp add: entry_node_def)
  have l: "JSON_parse hoisted_host hoisted_lock_text = Some hoisted_lock"
    "\<not> npm_unreadable hoisted_lock"
    "js_or_else (opt_prop (Some hoisted_lock) ''name'') (JStr ''root'') = JStr ''app''"
    "js_or_else (opt_prop (Some hoisted_lock) ''version'') (JStr ''0.0.0'') = JStr ''1.2.0''"
    "npm_children hoisted_lock
       = [Node (JStr ''a'') (JStr ''1.0.0'') [], Node (JStr ''b'') (JStr ''2.0.0'') []]"
    by code_simp+
  have n: "JSON_parse hoisted_host null_entry_text = Some null_entry_lock"
    "npm_unreadable null_entry_lock"
    by code_simp+
  have e: "JSON_parse hoisted_host ''{'' = None"
    by code_simp
  from parseLockFile_shape [of lock_host yarn_sample yarn] y u
  have 1: "parseLockFile lock_host yarn_sample yarn
     = Some (Node (JStr ''root'') (JStr ''0.0.0'') [Node (JStr ''lodash'') (JStr ''4.17.21'') []])"
    by auto
  from parseLockFile_shape [of lock_host pnpm_sample pnpm] p u
  have 2: "parseLockFile lock_host pnpm_sample pnpm
     = Some (Node (JStr ''root'') (JStr ''0.0.0'') [Node (JStr ''lodash'') (JStr ''4.17.21'') []])"
    by auto
  from parseLockFile_shape [of hoisted_host hoisted_lock_text npm] l
  have 3: "parseLockFile hoisted_host hoisted_lock_text npm
     = Some (Node (JStr ''app'') (JStr ''1.2.0'')
               [Node (JStr ''a'') (JStr ''1.0.0'') [], Node (JStr ''b'') (JStr ''2.0.0'') []])"
    by auto
  from parseLockFile_shape [of hoisted_host null_entry_text npm] n
  have 4: "parseLockFile hoisted_host null_entry_text npm = Some empty_root"
    by auto
  from parseLockFile_shape [of hoisted_host "''{''" npm] e
  have 5: "parseLockFile hoisted_host ''{'' npm = Some empty_root"
    by auto
  from 1 2 3 4 5 l n e show ?thesis by simp
qed

subsection \<open>Unique names\<close>

text \<open>
  Claim C5, as stated, fails for npm, which has no step that keeps a first occurrence.
  In a lock file where the first entry of package \<^verbatim>\<open>b\<close> is the nested
  \<^verbatim>\<open>node_modules/a/node_modules/b\<close> with version 2.0.0, the child \<^verbatim>\<open>b\<close> has the
  version 1.0.0 of the later entry \<^verbatim>\<open>node_modules/b\<close>; and of a key written twice in
  the text, \<^verbatim>\<open>JSON.parse\<close> keeps the last value.
\<close>

theorem npm_first_occurrence_does_not_win:
  "map_of (map (\<lambda>(p, i). (package_of_path p, i)) (npm_entries lock_host nested_first_text)) ''b''
     = Some (JObj [(''version'', JStr ''2.0.0'')])
   \<and> children (parseNpmLockFile lock_host nested_first_text)
       = [Node (JStr ''a'') (JStr ''1.0.0'') [], Node (JStr ''b'') (JStr ''1.0.0'') []]
   \<and> children (parseNpmLockFile lock_host duplicate_key_text) = [Node (JStr ''b'') (JStr ''1.0.0'') []]"
  by code_simp

text \<open>
  Claim C5, amended: the yarn and the pnpm parser return children with pairwise distinct
  names, one for every entry name, each with the version of the first entry of its name.
  The npm parser does not deduplicate. When the lock file parses and no entry that the
  loop reads is \<^verbatim>\<open>null\<close>, its children are the top-level entries of \<^verbatim>\<open>packages\<close>, in
  the order of the object: every child has a name \<open>nm\<close> without a further
  \<^verbatim>\<open>node_modules/\<close> segment, and the child named \<open>nm\<close> has the version of the entry
  \<^verbatim>\<open>node_modules/nm\<close>, whether or not an entry of the same package comes earlier. When
  \<^verbatim>\<open>packages\<close> has no entry, the children are the entries of \<^verbatim>\<open>dependencies\<close>, each
  with its own version. In both cases the names of the children are pairwise distinct
  when the keys of the object are (as they are in a value from \<^verbatim>\<open>JSON.parse\<close>).
\<close>

theorem lock_parsers_unique_names:
  "(\<exists>es root. yarn_entries content = Some es \<and> parseYarnLockFile content = Some root
       \<and> first_wins es (children root))
   \<and> first_wins (pnpm_entries (split content [CHR 0x0A]) False)
        (children (parsePnpmLockFile content))
   \<and> (JSON_parse h content = Some lock \<and> \<not> npm_unreadable lock \<and> lock_packages lock \<noteq> [] \<longrightarrow>
        children (parseNpmLockFile h content)
          = map npm_child (filter top_level (lock_packages lock))
        \<and> (\<forall>c \<in> set (children (parseNpmLockFile h content)).
              \<exists>nm. name c = JStr nm \<and> segment_count (''node_modules/'' @ nm) = 1)
        \<and> (\<forall>nm. segment_count (''node_modules/'' @ nm) = 1 \<longrightarrow>
              version_of (children (parseNpmLockFile h content)) nm
                = entry_version (lock_packages lock) (''node_modules/'' @ nm))
        \<and> (distinct (map fst (lock_packages lock)) \<longrightarrow>
              distinct (map name (children (parseNpmLockFile h content)))))
   \<and> (JSON_parse h content = Some lock \<and> \<not> npm_unreadable lock \<and> lock_packages lock = [] \<longrightarrow>
        children (parseNpmLockFile h content) = map npm_dep_child (lock_dependencies lock)
        \<and> (\<forall>nm. version_of (children (parseNpmLockFile h content)) nm
                = entry_version (lock_dependencies lock) nm)
        \<and> (distinct (map fst (lock_dependencies lock)) \<longrightarrow>
              distinct (map name (children (parseNpmLockFile h content)))))"
proof (intro conjI)
  from yarn_tree [of content] obtain es where
    "yarn_entries content = Some es"
    "parseYarnLockFile content
       = Some (Node (JStr ''root'') (JStr ''0.0.0'') (map entry_node (unseen_entries es {})))"
    by blast
  with first_wins_unseen [of es]
  show "\<exists>es root. yarn_entries content = Some es \<and> parseYarnLockFile content = Some root
       \<and> first_wins es (children root)"
    by simp
next
  show "first_wins (pnpm_entries (split content [CHR 0x0A]) False)
        (children (parsePnpmLockFile content))"
    using first_wins_unseen [of "pnpm_entries (split content [CHR 0x0A]) False"]
    by (simp add: pnpm_tree)
next
  show "JSON_parse h content = Some lock \<and> \<not> npm_unreadable lock \<and> lock_packages lock \<noteq> [] \<longrightarrow>
        children (parseNpmLockFile h content)
          = map npm_child (filter top_level (lock_packages lock))
        \<and> (\<forall>c \<in> set (children (parseNpmLockFile h content)).
              \<exists>nm. name c = JStr nm \<and> segment_count (''node_modules/'' @ nm) = 1)
        \<and> (\<forall>nm. segment_count (''node_modules/'' @ nm) = 1 \<longrightarrow>
              version_of (children (parseNpmLockFile h content)) nm
                = entry_version (lock_packages lock) (''node_modules/'' @ nm))
        \<and> (distinct (map fst (lock_packages lock)) \<longrightarrow>
              distinct (map name (children (parseNpmLockFile h content))))"
  proof
    assume a: "JSON_parse h content = Some lock \<and> \<not> npm_unreadable lock \<and> lock_packages lock \<noteq> []"
    then have k: "children (parseNpmLockFile h content)
          = map npm_child (filter top_level (lock_packages lock))"
      by (simp add: parseNpmLockFile_tree npm_children_def)
    show "children (parseNpmLockFile h content)
          = map npm_child (filter top_level (lock_packages lock))
        \<and> (\<forall>c \<in> set (children (parseNpmLockFile h content)).
              \<exists>nm. name c = JStr nm \<and> segment_count (''node_modules/'' @ nm) = 1)
        \<and> (\<forall>nm. segment_count (''node_modules/'' @ nm) = 1 \<longrightarrow>
              version_of (children (parseNpmLockFile h content)) nm
                = entry_version (lock_packages lock) (''node_modules/'' @ nm))
        \<and> (distinct (map fst (lock_packages lock)) \<longrightarrow>
              distinct (map name (children (parseNpmLockFile h content))))"
      unfolding k
      using npm_child_names [of "lock_packages lock"]
      by (intro conjI allI impI refl version_of_top_level npm_child_names_distinct)
  qed
next
  show "JSON_parse h content = Some lock \<and> \<not> npm_unreadable lock \<and> lock_packages lock = [] \<longrightarrow>
        children (parseNpmLockFile h content) = map npm_dep_child (lock_dependencies lock)
        \<and> (\<forall>nm. version_of (children (parseNpmLockFile h content)) nm
                = entry_version (lock_dependencies lock) nm)
        \<and> (distinct (map fst (lock_dependencies lock)) \<longrightarrow>
              distinct (map name (children (parseNpmLockFile h content))))"
  proof
    assume a: "JSON_parse h content = Some lock \<and> \<not> npm_unreadable lock \<and> lock_packages lock = []"
    then have k: "children (parseNpmLockFile h content) = map npm_dep_child (lock_dependencies lock)"
      by (simp add: parseNpmLockFile_tree npm_children_def)
    show "children (parseNpmLockFile h content) = map npm_dep_child (lock_dependencies lock)
        \<and> (\<forall>nm. version_of (children (parseNpmLockFile h content)) nm
                = entry_version (lock_dependencies lock) nm)
        \<and> (distinct (map fst (lock_dependencies lock)) \<longrightarrow>
              distinct (map name (children (parseNpmLockFile h content))))"
      unfolding k
      by (intro conjI allI impI refl version_of_dependencies npm_dep_child_names_distinct)
  qed
qed

theorem lock_parsers_unique_names_witness:
  "yarn_entries yarn_sample = Some [(''lodash'', ''4.17.21''), (''lodash'', ''3.10.1'')]
   \<and> (\<exists>root. parseYarnLockFile yarn_sample = Some root
         \<and> distinct (map name (children root))
         \<and> children root = [Node (JStr ''lodash'') (JStr ''4.17.21'') []])
   \<and> JSON_parse lock_host nested_first_text = Some nested_first_lock
   \<and> \<not> npm_unreadable nested_first_lock
   \<and> lock_packages nested_first_lock \<noteq> []
   \<and> distinct (map fst (lock_packages nested_first_lock))
   \<and> segment_count ''node_modules/b'' = 1
   \<and> children (parseNpmLockFile lock_host nested_first_text)
       = [Node (JStr ''a'') (JStr ''1.0.0'') [], Node (JStr ''b'') (JStr ''1.0.0'') []]
   \<and> version_of (children (parseNpmLockFile lock_host nested_first_text)) ''b''
       = Some (JStr ''1.0.0'')
   \<and> distinct (map name (children (parseNpmLockFile lock_host nested_first_text)))
   \<and> JSON_parse hoisted_host flat_lock_text = Some flat_lock
   \<and> \<not> npm_unreadable flat_lock
   \<and> lock_packages flat_lock = []
   \<and> distinct (map fst (lock_dependencies flat_lock))
   \<and> children (parseNpmLockFile hoisted_host flat_lock_text)
       = [Node (JStr ''a'') (JStr ''1.0.0'') [], Node (JStr ''b'') (JStr ''0.0.0'') []]
   \<and> distinct (map name (children (parseNpmLockFile hoisted_host flat_lock_text)))"
proof -
  have ye: "yarn_entries yarn_sample = Some [(''lodash'', ''4.17.21''), (''lodash'', ''3.10.1'')]"
    by code_simp
  have yp: "parseYarnLockFile yarn_sample
     = Some (Node (JStr ''root'') (JStr ''0.0.0'') [Node (JStr ''lodash'') (JStr ''4.17.21'') []])"
    by code_simp
  have n: "JSON_parse lock_host nested_first_text = Some nested_first_lock"
    "\<not> npm_unreadable nested_first_lock"
    "lock_packages nested_first_lock \<noteq> []"
    "distinct (map fst (lock_packages nested_first_lock))"
    "segment_count (''node_modules/'' @ ''b'') = 1"
    "map npm_child (filter top_level (lock_packages nested_first_lock))
       = [Node (JStr ''a'') (JStr ''1.0.0'') [], Node (JStr ''b'') (JStr ''1.0.0'') []]"
    "entry_version (lock_packages nested_first_lock) (''node_modules/'' @ ''b'')
       = Some (JStr ''1.0.0'')"
    by code_simp+
  have f: "JSON_parse hoisted_host flat_lock_text = Some flat_lock"
    "\<not> npm_unreadable flat_lock"
    "lock_packages flat_lock = []"
    "distinct (map fst (lock_dependencies flat_lock))"
    "map npm_dep_child (lock_dependencies flat_lock)
       = [Node (JStr ''a'') (JStr ''1.0.0'') [], Node (JStr ''b'') (JStr ''0.0.0'') []]"
    by code_simp+
  from lock_parsers_unique_names [of yarn_sample lock_host] ye yp
  have 1: "distinct (map name (children (Node (JStr ''root'') (JStr ''0.0.0'')
           [Node (JStr ''lodash'') (JStr ''4.17.21'') []])))"
    by (auto simp: first_wins_def)
  from lock_parsers_unique_names [of nested_first_text lock_host nested_first_lock] n(1-3)
  have k: "children (parseNpmLockFile lock_host nested_first_text)
          = map npm_child (filter top_level (lock_packages nested_first_lock))"
    and v: "\<forall>nm. segment_count (''node_modules/'' @ nm) = 1 \<longrightarrow>
              version_of (children (parseNpmLockFile lock_host nested_first_text)) nm
                = entry_version (lock_packages nested_first_lock) (''node_modules/'' @ nm)"
    and d: "distinct (map fst (lock_packages nested_first_lock)) \<longrightarrow>
              distinct (map name (children (parseNpmLockFile lock_host nested_first_text)))"
    by blast+
  from lock_parsers_unique_names [of flat_lock_text hoisted_host flat_lock] f(1-3)
  have fk: "children (parseNpmLockFile hoisted_host flat_lock_text)
          = map npm_dep_child (lock_dependencies flat_lock)"
    and fd: "distinct (map fst (lock_dependencies flat_lock)) \<longrightarrow>
              distinct (map name (children (parseNpmLockFile hoisted_host flat_lock_text)))"
    by blast+
  from v [rule_format, of "''b''"] n(5,7)
  have vb: "version_of (children (parseNpmLockFile lock_host nested_first_text)) ''b''
       = Some (JStr ''1.0.0'')"
    by simp
  from d n(4) have dn: "distinct (map name (children (parseNpmLockFile lock_host nested_first_text)))"
    by blast
  from fd f(4) have df: "distinct (map name (children (parseNpmLockFile hoisted_host flat_lock_text)))"
    by blast
  from n(5) have sc: "segment_count ''node_modules/b'' = 1" by simp
  from 1 ye yp n(1-4) sc k n(6) vb dn f(1-4) fk f(5) df show ?thesis
    by simp
qed

subsection \<open>The entries of an audit\<close>




















subsection \<open>Severity normalisation\<close>




end
